theory Spec2Isabelle
  imports Complex_Main "HOL-Library.Word" "HOL-Library.Code_Target_Numeral"
begin

section \<open>JavaScript values\<close>

text \<open>
  A JavaScript string is a sequence of UTF-16 code units. String literals of the source
  are written \<open>ascii ''...''\<close>.
\<close>

type_synonym jsstring = "16 word list"

definition ascii :: "string \<Rightarrow> jsstring" where
  "ascii s = map of_char s"

text \<open>
  The values that flow through the two front ends: what a JSON response body can hold,
  the object literals the handlers build, and \<open>undefined\<close> (the value of a missing
  property). An object is its own properties in enumeration order.

  A Number is an IEEE 754 double: \<open>NaN\<close>, the two infinities, the negative zero, or
  \<open>Finite q\<close>, the double whose value is the rational \<open>q\<close> (\<open>Finite 0\<close> is the positive
  zero). The doubles among the rationals are told by \<open>is_double\<close> below. No function of
  the source computes with a number; numbers are read from and written to JSON texts.
\<close>

datatype js_number = NaN | PosInfinity | NegInfinity | NegZero | Finite rat

datatype jsval =
    JUndefined
  | JNull
  | JBool bool
  | JNum js_number
  | JStr jsstring
  | JArr "jsval list"
  | JObj "(jsstring \<times> jsval) list"

text \<open>What a computation can end with instead of a value.\<close>

datatype js_error = TypeError | SyntaxError | AxiosError

text \<open>ToBoolean, as used by \<open>!\<close>, \<open>||\<close> and \<open>if\<close>.\<close>

fun truthy :: "jsval \<Rightarrow> bool" where
  "truthy JUndefined = False"
| "truthy JNull = False"
| "truthy (JBool b) = b"
| "truthy (JNum x) = (x \<noteq> NaN \<and> x \<noteq> NegZero \<and> x \<noteq> Finite 0)"
| "truthy (JStr s) = (s \<noteq> [])"
| "truthy (JArr xs) = True"
| "truthy (JObj kvs) = True"

text \<open>
  Reading a named property \<open>v.k\<close>. On \<open>undefined\<close> and \<open>null\<close> it throws a TypeError.
  On an object it is the own property, or \<open>undefined\<close>. The names the source reads
  (\<open>reply\<close>, \<open>insight\<close>) are not properties of the Boolean, Number, String or Array
  prototypes, so on a primitive or an array the result is \<open>undefined\<close>.
\<close>

fun get_prop :: "jsval \<Rightarrow> jsstring \<Rightarrow> js_error + jsval" where
  "get_prop JUndefined k = Inl TypeError"
| "get_prop JNull k = Inl TypeError"
| "get_prop (JObj kvs) k = Inr (case map_of kvs k of None \<Rightarrow> JUndefined | Some v \<Rightarrow> v)"
| "get_prop v k = Inr JUndefined"

subsection \<open>String.prototype.trim\<close>

text \<open>The code units of WhiteSpace and LineTerminator (ECMA-262); all lie in the BMP.\<close>

definition is_js_whitespace :: "16 word \<Rightarrow> bool" where
  "is_js_whitespace c \<longleftrightarrow>
     c = 0x09 \<or> c = 0x0A \<or> c = 0x0B \<or> c = 0x0C \<or> c = 0x0D \<or> c = 0x20 \<or> c = 0xA0 \<or>
     c = 0x1680 \<or> (0x2000 \<le> c \<and> c \<le> 0x200A) \<or> c = 0x2028 \<or> c = 0x2029 \<or>
     c = 0x202F \<or> c = 0x205F \<or> c = 0x3000 \<or> c = 0xFEFF"

definition trim :: "jsstring \<Rightarrow> jsstring" where
  "trim s = rev (dropWhile is_js_whitespace (rev (dropWhile is_js_whitespace s)))"

section \<open>Numbers and their decimal text\<close>

subsection \<open>Rounding to a double\<close>

text \<open>
  Every finite double is a whole number of units of \<open>2^-1074\<close>, of at most 53 significant
  bits and below \<open>2^1024\<close>. \<open>bit_length n\<close> is the number of bits of \<open>n\<close>.
\<close>

function bit_length :: "nat \<Rightarrow> nat" where
  "bit_length n = (if n = 0 then 0 else Suc (bit_length (n div 2)))"
  by pat_completeness auto
termination
  by (relation "measure id") auto

declare bit_length.simps [simp del]

definition is_double :: "rat \<Rightarrow> bool" where
  "is_double q \<longleftrightarrow>
     (let scaled = \<bar>q\<bar> * 2 ^ 1074;
          units = nat \<lfloor>scaled\<rfloor>
      in of_nat units = scaled \<and> units < 2 ^ 2098 \<and> 2 ^ (bit_length units - 53) dvd units)"

text \<open>Rounding a rational to an integer, a tie going to the even neighbour.\<close>

definition round_half_even :: "rat \<Rightarrow> int" where
  "round_half_even r =
     (let f = \<lfloor>r\<rfloor>;
          d = r - of_int f
      in if d < 1 / 2 then f
         else if 1 / 2 < d then f + 1
         else if even f then f
         else f + 1)"

text \<open>
  The double nearest to a rational \<open>q \<ge> 0\<close> (roundTiesToEven of IEEE 754): in units of
  \<open>2^-1074\<close> the doubles around \<open>q\<close> are the multiples of \<open>2^shift\<close>, where \<open>shift\<close> is
  what the bit length of \<open>q\<close> exceeds 53 by. \<open>None\<close> is the overflow to infinity.
\<close>

definition nearest_double :: "rat \<Rightarrow> rat option" where
  "nearest_double q =
     (let scaled = q * 2 ^ 1074;
          shift = bit_length (nat \<lfloor>scaled\<rfloor>) - 53;
          units = round_half_even (scaled / 2 ^ shift) * 2 ^ shift
      in if 2 ^ 2098 \<le> units then None else Some (of_int units / 2 ^ 1074))"

subsection \<open>Number::toString\<close>

function dec_digits :: "nat \<Rightarrow> jsstring" where
  "dec_digits n = (if n < 10 then [of_nat (48 + n)]
                   else dec_digits (n div 10) @ [of_nat (48 + n mod 10)])"
  by pat_completeness auto
termination
  by (relation "measure id") auto

declare dec_digits.simps [simp del]

text \<open>
  Number::toString (ECMA-262, radix 10) takes for a double \<open>x > 0\<close> integers \<open>n\<close>, \<open>k\<close>,
  \<open>s\<close> with \<open>k \<ge> 1\<close>, \<open>10^(k-1) \<le> s < 10^k\<close> and \<open>s * 10^(n-k)\<close> rounding to \<open>x\<close>, with
  \<open>k\<close> as small as possible and then \<open>s * 10^(n-k)\<close> as close to \<open>x\<close> as possible.

  \<open>decimal_exponent x\<close> is the \<open>n\<close> with \<open>10^(n-1) \<le> x < 10^n\<close>.
\<close>

fun decimal_exponent_below :: "nat \<Rightarrow> rat \<Rightarrow> int" where
  "decimal_exponent_below 0 x = 0"
| "decimal_exponent_below (Suc fuel) x =
     (if 1 \<le> x * 10 then 0 else decimal_exponent_below fuel (x * 10) - 1)"

definition decimal_exponent :: "rat \<Rightarrow> int" where
  "decimal_exponent x =
     (if 1 \<le> x then int (length (dec_digits (nat \<lfloor>x\<rfloor>))) else decimal_exponent_below 400 x)"

text \<open>
  With \<open>k\<close> digits the decimals \<open>s * 10^(n-k)\<close> next to \<open>x\<close> are the one below and the one
  above; \<open>digits_candidate\<close> gives the one that rounds to \<open>x\<close>, the closer one if both do
  (the even one at equal distance), as the pair of \<open>s\<close> and the exponent \<open>n - k\<close>.
\<close>

definition digits_candidate :: "rat \<Rightarrow> int \<Rightarrow> nat \<Rightarrow> (nat \<times> int) option" where
  "digits_candidate x n k =
     (let e = n - int k;
          t = x * 10 powi (- e);
          lo = nat \<lfloor>t\<rfloor>;
          hi = Suc lo;
          lo_rounds = (nearest_double (of_nat lo * 10 powi e) = Some x);
          hi_rounds = (nearest_double (of_nat hi * 10 powi e) = Some x)
      in if lo_rounds \<and> hi_rounds then
           (if t - of_nat lo < of_nat hi - t then Some (lo, e)
            else if of_nat hi - t < t - of_nat lo then Some (hi, e)
            else if even lo then Some (lo, e)
            else Some (hi, e))
         else if lo_rounds then Some (lo, e)
         else if hi_rounds then Some (hi, e)
         else None)"

fun shortest_digits :: "nat \<Rightarrow> nat \<Rightarrow> rat \<Rightarrow> int \<Rightarrow> (nat \<times> int) option" where
  "shortest_digits 0 k x n = None"
| "shortest_digits (Suc fuel) k x n =
     (case digits_candidate x n k of
        Some c \<Rightarrow> Some c
      | None \<Rightarrow> shortest_digits fuel (Suc k) x n)"

function strip_zeros :: "nat \<Rightarrow> int \<Rightarrow> nat \<times> int" where
  "strip_zeros s e = (if 0 < s \<and> s mod 10 = 0 then strip_zeros (s div 10) (e + 1) else (s, e))"
  by pat_completeness auto
termination
  by (relation "measure fst") auto

declare strip_zeros.simps [simp del]

text \<open>The exact decimal expansion of a double, a whole number of units of \<open>10^-1074\<close>.\<close>

definition exact_expansion :: "rat \<Rightarrow> nat \<times> int" where
  "exact_expansion x = (nat \<lfloor>x * 10 ^ 1074\<rfloor>, - 1074)"

text \<open>
  The digits of a double \<open>x > 0\<close>: \<open>s\<close> without trailing zeros and \<open>n\<close>. Seventeen digits
  tell every double from its neighbours, so the search ends by \<open>k = 17\<close>; the alternative
  is the exact expansion.
\<close>

definition double_digits :: "rat \<Rightarrow> nat \<times> int" where
  "double_digits x =
     (let (s, e) = (case shortest_digits 17 1 x (decimal_exponent x) of
                      Some c \<Rightarrow> c
                    | None \<Rightarrow> exact_expansion x);
          (s', e') = strip_zeros s e
      in (s', e' + int (length (dec_digits s'))))"

text \<open>The four layouts of Number::toString, for the digits \<open>ds\<close> of \<open>s\<close> and \<open>n\<close>.\<close>

definition number_layout :: "jsstring \<Rightarrow> int \<Rightarrow> jsstring" where
  "number_layout ds n =
     (let k = int (length ds) in
      if k \<le> n \<and> n \<le> 21 then ds @ replicate (nat (n - k)) 0x30
      else if 0 < n \<and> n \<le> 21 then take (nat n) ds @ 0x2E # drop (nat n) ds
      else if - 6 < n \<and> n \<le> 0 then 0x30 # 0x2E # replicate (nat (- n)) 0x30 @ ds
      else (if k = 1 then ds else hd ds # 0x2E # tl ds)
             @ 0x65 # (if 0 \<le> n - 1 then 0x2B else 0x2D) # dec_digits (nat \<bar>n - 1\<bar>))"

definition positive_toString :: "rat \<Rightarrow> jsstring" where
  "positive_toString x = (case double_digits x of (s, n) \<Rightarrow> number_layout (dec_digits s) n)"

fun Number_toString :: "js_number \<Rightarrow> jsstring" where
  "Number_toString NaN = ascii ''NaN''"
| "Number_toString PosInfinity = ascii ''Infinity''"
| "Number_toString NegInfinity = ascii ''-Infinity''"
| "Number_toString NegZero = ascii ''0''"
| "Number_toString (Finite q) =
     (if q = 0 then ascii ''0''
      else if q < 0 then 0x2D # positive_toString (- q)
      else positive_toString q)"

section \<open>JSON.stringify\<close>

text \<open>
  The serialisation algorithm of ECMA-262 (QuoteJSONString, SerializeJSONProperty,
  SerializeJSONObject, SerializeJSONArray), for a call without replacer. \<open>gap\<close> is the
  indentation unit (empty for \<open>JSON.stringify(v)\<close>, two spaces for
  \<open>JSON.stringify(v, null, 2)\<close>), \<open>indent\<close> the current indentation. A number that is
  not finite is written \<open>null\<close>.
\<close>

definition is_finite :: "js_number \<Rightarrow> bool" where
  "is_finite x \<longleftrightarrow> x \<noteq> NaN \<and> x \<noteq> PosInfinity \<and> x \<noteq> NegInfinity"

definition hex_digit :: "nat \<Rightarrow> 16 word" where
  "hex_digit d = of_nat (if d < 10 then 48 + d else 87 + d)"

definition UnicodeEscape :: "16 word \<Rightarrow> jsstring" where
  "UnicodeEscape c =
     (let n = unat c in
      [0x5C, 0x75, hex_digit (n div 4096), hex_digit (n div 256 mod 16),
       hex_digit (n div 16 mod 16), hex_digit (n mod 16)])"

definition is_leading_surrogate :: "16 word \<Rightarrow> bool" where
  "is_leading_surrogate c \<longleftrightarrow> 0xD800 \<le> c \<and> c \<le> 0xDBFF"

definition is_trailing_surrogate :: "16 word \<Rightarrow> bool" where
  "is_trailing_surrogate c \<longleftrightarrow> 0xDC00 \<le> c \<and> c \<le> 0xDFFF"

text \<open>One code point that is a single code unit (a lone surrogate included).\<close>

definition quote_unit :: "16 word \<Rightarrow> jsstring" where
  "quote_unit c =
     (if c = 0x08 then [0x5C, 0x62]
      else if c = 0x09 then [0x5C, 0x74]
      else if c = 0x0A then [0x5C, 0x6E]
      else if c = 0x0C then [0x5C, 0x66]
      else if c = 0x0D then [0x5C, 0x72]
      else if c = 0x22 then [0x5C, 0x22]
      else if c = 0x5C then [0x5C, 0x5C]
      else if c < 0x20 \<or> is_leading_surrogate c \<or> is_trailing_surrogate c
        then UnicodeEscape c
      else [c])"

text \<open>
  The string is read by code points: a leading surrogate followed by a trailing one is
  one code point above the BMP and is copied as it is.
\<close>

fun quote_body :: "jsstring \<Rightarrow> jsstring" where
  "quote_body [] = []"
| "quote_body [c] = quote_unit c"
| "quote_body (c # d # cs) =
     (if is_leading_surrogate c \<and> is_trailing_surrogate d then c # d # quote_body cs
      else quote_unit c @ quote_body (d # cs))"

definition QuoteJSONString :: "jsstring \<Rightarrow> jsstring" where
  "QuoteJSONString s = 0x22 # quote_body s @ [0x22]"

fun join :: "jsstring \<Rightarrow> jsstring list \<Rightarrow> jsstring" where
  "join sep [] = []"
| "join sep [x] = x"
| "join sep (x # y # ys) = x @ sep @ join sep (y # ys)"

text \<open>
  The closing steps shared by SerializeJSONObject and SerializeJSONArray: \<open>partial\<close>
  holds the serialised members, \<open>stepback\<close> the indentation outside the brackets.
\<close>

definition bracket :: "jsstring \<Rightarrow> jsstring \<Rightarrow> 16 word \<Rightarrow> 16 word \<Rightarrow> jsstring list \<Rightarrow> jsstring" where
  "bracket gap stepback opn cls partial =
     (if partial = [] then [opn, cls]
      else if gap = [] then opn # join [0x2C] partial @ [cls]
      else opn # 0x0A # (stepback @ gap)
             @ join (0x2C # 0x0A # (stepback @ gap)) partial
             @ 0x0A # stepback @ [cls])"

fun SerializeJSONProperty :: "jsstring \<Rightarrow> jsstring \<Rightarrow> jsval \<Rightarrow> jsstring option"
  and SerializeJSONArray_elements :: "jsstring \<Rightarrow> jsstring \<Rightarrow> jsval list \<Rightarrow> jsstring list"
  and SerializeJSONObject_members :: "jsstring \<Rightarrow> jsstring \<Rightarrow> (jsstring \<times> jsval) list \<Rightarrow> jsstring list"
where
  "SerializeJSONProperty gap indent JUndefined = None"
| "SerializeJSONProperty gap indent JNull = Some (ascii ''null'')"
| "SerializeJSONProperty gap indent (JBool b) = Some (if b then ascii ''true'' else ascii ''false'')"
| "SerializeJSONProperty gap indent (JNum x) =
     Some (if is_finite x then Number_toString x else ascii ''null'')"
| "SerializeJSONProperty gap indent (JStr s) = Some (QuoteJSONString s)"
| "SerializeJSONProperty gap indent (JArr xs) =
     Some (bracket gap indent 0x5B 0x5D (SerializeJSONArray_elements gap (indent @ gap) xs))"
| "SerializeJSONProperty gap indent (JObj kvs) =
     Some (bracket gap indent 0x7B 0x7D (SerializeJSONObject_members gap (indent @ gap) kvs))"
| "SerializeJSONArray_elements gap indent [] = []"
| "SerializeJSONArray_elements gap indent (x # xs) =
     (case SerializeJSONProperty gap indent x of
        None \<Rightarrow> ascii ''null''
      | Some str \<Rightarrow> str) # SerializeJSONArray_elements gap indent xs"
| "SerializeJSONObject_members gap indent [] = []"
| "SerializeJSONObject_members gap indent ((k, v) # kvs) =
     (case SerializeJSONProperty gap indent v of
        None \<Rightarrow> SerializeJSONObject_members gap indent kvs
      | Some str \<Rightarrow>
          (QuoteJSONString k @ [0x3A] @ (if gap = [] then [] else [0x20]) @ str)
            # SerializeJSONObject_members gap indent kvs)"

text \<open>\<open>JSON.stringify(v)\<close> and \<open>JSON.stringify(v, null, 2)\<close>; \<open>None\<close> is \<open>undefined\<close>.\<close>

definition JSON_stringify :: "jsval \<Rightarrow> jsstring option" where
  "JSON_stringify v = SerializeJSONProperty [] [] v"

definition JSON_stringify_2 :: "jsval \<Rightarrow> jsstring option" where
  "JSON_stringify_2 v = SerializeJSONProperty [0x20, 0x20] [] v"

section \<open>JSON.parse\<close>

text \<open>
  The JSON grammar of ECMA-262 read by recursive descent, for a call without reviver.
  Every failure is the SyntaxError that \<open>JSON.parse\<close> throws.
\<close>

definition is_json_whitespace :: "16 word \<Rightarrow> bool" where
  "is_json_whitespace c \<longleftrightarrow> c = 0x09 \<or> c = 0x0A \<or> c = 0x0D \<or> c = 0x20"

definition skip_ws :: "jsstring \<Rightarrow> jsstring" where
  "skip_ws s = dropWhile is_json_whitespace s"

definition hex_value :: "16 word \<Rightarrow> nat option" where
  "hex_value c =
     (if 0x30 \<le> c \<and> c \<le> 0x39 then Some (unat c - 48)
      else if 0x61 \<le> c \<and> c \<le> 0x66 then Some (unat c - 87)
      else if 0x41 \<le> c \<and> c \<le> 0x46 then Some (unat c - 55)
      else None)"

definition unicode_escape_value :: "16 word \<Rightarrow> 16 word \<Rightarrow> 16 word \<Rightarrow> 16 word \<Rightarrow> 16 word option" where
  "unicode_escape_value a b c d =
     (case (hex_value a, hex_value b, hex_value c, hex_value d) of
        (Some h3, Some h2, Some h1, Some h0) \<Rightarrow> Some (of_nat (((h3 * 16 + h2) * 16 + h1) * 16 + h0))
      | _ \<Rightarrow> None)"

definition simple_escape :: "16 word \<Rightarrow> 16 word option" where
  "simple_escape e =
     (if e = 0x22 then Some 0x22
      else if e = 0x5C then Some 0x5C
      else if e = 0x2F then Some 0x2F
      else if e = 0x62 then Some 0x08
      else if e = 0x66 then Some 0x0C
      else if e = 0x6E then Some 0x0A
      else if e = 0x72 then Some 0x0D
      else if e = 0x74 then Some 0x09
      else None)"

text \<open>
  The characters of a string literal after its opening quote: the decoded string and
  what follows the closing quote.
\<close>

fun parse_string_chars :: "jsstring \<Rightarrow> (jsstring \<times> jsstring) option" where
  "parse_string_chars [] = None"
| "parse_string_chars (c # cs) =
     (if c = 0x22 then Some ([], cs)
      else if c = 0x5C then
        (case cs of
           [] \<Rightarrow> None
         | e # es \<Rightarrow>
             if e = 0x75 then
               (case es of
                  h3 # h2 # h1 # h0 # rest \<Rightarrow>
                    (case unicode_escape_value h3 h2 h1 h0 of
                       None \<Rightarrow> None
                     | Some u \<Rightarrow>
                         (case parse_string_chars rest of
                            None \<Rightarrow> None
                          | Some (str, rest') \<Rightarrow> Some (u # str, rest')))
                | _ \<Rightarrow> None)
             else
               (case simple_escape e of
                  None \<Rightarrow> None
                | Some u \<Rightarrow>
                    (case parse_string_chars es of
                       None \<Rightarrow> None
                     | Some (str, rest') \<Rightarrow> Some (u # str, rest'))))
      else if c < 0x20 then None
      else (case parse_string_chars cs of
              None \<Rightarrow> None
            | Some (str, rest') \<Rightarrow> Some (c # str, rest')))"

definition is_digit :: "16 word \<Rightarrow> bool" where
  "is_digit c \<longleftrightarrow> 0x30 \<le> c \<and> c \<le> 0x39"

definition digits_value :: "jsstring \<Rightarrow> nat" where
  "digits_value ds = foldl (\<lambda>a c. 10 * a + (unat c - 48)) 0 ds"

text \<open>
  A number literal is an integer part, an optional fraction and an optional exponent;
  its value is the double nearest to the decimal it writes (StringToNumber), with the
  sign of the literal: \<open>-0\<close> is the negative zero.
\<close>

definition parse_fraction :: "jsstring \<Rightarrow> (jsstring \<times> jsstring) option" where
  "parse_fraction s =
     (case s of
        [] \<Rightarrow> Some ([], [])
      | c # cs \<Rightarrow>
          if c = 0x2E then
            (if takeWhile is_digit cs = [] then None
             else Some (takeWhile is_digit cs, dropWhile is_digit cs))
          else Some ([], s))"

definition parse_exponent :: "jsstring \<Rightarrow> (int \<times> jsstring) option" where
  "parse_exponent s =
     (case s of
        [] \<Rightarrow> Some (0, [])
      | c # cs \<Rightarrow>
          if c = 0x65 \<or> c = 0x45 then
            (let negative = (cs \<noteq> [] \<and> hd cs = 0x2D);
                 signed = (cs \<noteq> [] \<and> (hd cs = 0x2D \<or> hd cs = 0x2B));
                 body = (if signed then tl cs else cs)
             in if takeWhile is_digit body = [] then None
                else Some (if negative then - int (digits_value (takeWhile is_digit body))
                           else int (digits_value (takeWhile is_digit body)),
                           dropWhile is_digit body))
          else Some (0, s))"

definition to_number :: "bool \<Rightarrow> rat \<Rightarrow> js_number" where
  "to_number negative magnitude =
     (case nearest_double magnitude of
        None \<Rightarrow> if negative then NegInfinity else PosInfinity
      | Some r \<Rightarrow> if negative then (if r = 0 then NegZero else Finite (- r)) else Finite r)"

definition parse_number :: "jsstring \<Rightarrow> js_error + (jsval \<times> jsstring)" where
  "parse_number s =
     (let negative = (s \<noteq> [] \<and> hd s = 0x2D);
          body = (if negative then tl s else s);
          ds = takeWhile is_digit body
      in if ds = [] then Inl SyntaxError
         else if hd ds = 0x30 \<and> tl ds \<noteq> [] then Inl SyntaxError
         else
           (case parse_fraction (dropWhile is_digit body) of
              None \<Rightarrow> Inl SyntaxError
            | Some (fs, after_fraction) \<Rightarrow>
                (case parse_exponent after_fraction of
                   None \<Rightarrow> Inl SyntaxError
                 | Some (e, rest) \<Rightarrow>
                     Inr (JNum (to_number negative
                                  (of_nat (digits_value (ds @ fs)) * 10 powi (e - int (length fs)))),
                          rest))))"

text \<open>
  The order of an object's own properties (OrdinaryOwnPropertyKeys): array indices, the
  canonical decimal strings of the integers below \<open>2^32 - 1\<close>, come first in ascending
  order, then the other keys in the order of their creation. \<open>define_property\<close> is
  CreateDataProperty on an object whose properties are in that order: a property that
  exists keeps its place and takes the new value.
\<close>

definition is_array_index :: "jsstring \<Rightarrow> bool" where
  "is_array_index k \<longleftrightarrow>
     k \<noteq> [] \<and> list_all is_digit k \<and> (hd k = 0x30 \<longrightarrow> tl k = []) \<and> digits_value k < 4294967295"

definition enumerated_before :: "jsstring \<Rightarrow> jsstring \<Rightarrow> bool" where
  "enumerated_before k k' \<longleftrightarrow>
     is_array_index k \<and> (is_array_index k' \<longrightarrow> digits_value k < digits_value k')"

fun define_property :: "jsstring \<Rightarrow> jsval \<Rightarrow> (jsstring \<times> jsval) list \<Rightarrow> (jsstring \<times> jsval) list" where
  "define_property k v [] = [(k, v)]"
| "define_property k v ((k', v') # ps) =
     (if k' = k then (k, v) # ps
      else if enumerated_before k k' then (k, v) # (k', v') # ps
      else (k', v') # define_property k v ps)"

text \<open>
  The fuel bounds the depth of the descent; \<open>JSON_parse\<close> gives one more than the length
  of the text, and each nested call consumes a code unit first.
\<close>

fun parse_value :: "nat \<Rightarrow> jsstring \<Rightarrow> js_error + (jsval \<times> jsstring)"
  and parse_elements :: "nat \<Rightarrow> jsstring \<Rightarrow> js_error + (jsval list \<times> jsstring)"
  and parse_members ::
    "nat \<Rightarrow> (jsstring \<times> jsval) list \<Rightarrow> jsstring \<Rightarrow> js_error + ((jsstring \<times> jsval) list \<times> jsstring)"
where
  "parse_value 0 s = Inl SyntaxError"
| "parse_value (Suc n) s =
     (case skip_ws s of
        [] \<Rightarrow> Inl SyntaxError
      | c # cs \<Rightarrow>
          if c = 0x5B then
            (case skip_ws cs of
               [] \<Rightarrow> Inl SyntaxError
             | d # ds \<Rightarrow>
                 if d = 0x5D then Inr (JArr [], ds)
                 else (case parse_elements n (d # ds) of
                         Inl e \<Rightarrow> Inl e
                       | Inr (vs, rest) \<Rightarrow> Inr (JArr vs, rest)))
          else if c = 0x7B then
            (case skip_ws cs of
               [] \<Rightarrow> Inl SyntaxError
             | d # ds \<Rightarrow>
                 if d = 0x7D then Inr (JObj [], ds)
                 else (case parse_members n [] (d # ds) of
                         Inl e \<Rightarrow> Inl e
                       | Inr (kvs, rest) \<Rightarrow> Inr (JObj kvs, rest)))
          else if c = 0x22 then
            (case parse_string_chars cs of
               None \<Rightarrow> Inl SyntaxError
             | Some (str, rest) \<Rightarrow> Inr (JStr str, rest))
          else if c = 0x6E then
            (if take 3 cs = ascii ''ull'' then Inr (JNull, drop 3 cs) else Inl SyntaxError)
          else if c = 0x74 then
            (if take 3 cs = ascii ''rue'' then Inr (JBool True, drop 3 cs) else Inl SyntaxError)
          else if c = 0x66 then
            (if take 4 cs = ascii ''alse'' then Inr (JBool False, drop 4 cs) else Inl SyntaxError)
          else parse_number (c # cs))"
| "parse_elements 0 s = Inl SyntaxError"
| "parse_elements (Suc n) s =
     (case parse_value n s of
        Inl e \<Rightarrow> Inl e
      | Inr (v, rest) \<Rightarrow>
          (case skip_ws rest of
             [] \<Rightarrow> Inl SyntaxError
           | c # cs \<Rightarrow>
               if c = 0x5D then Inr ([v], cs)
               else if c = 0x2C then
                 (case parse_elements n cs of
                    Inl e \<Rightarrow> Inl e
                  | Inr (vs, rest') \<Rightarrow> Inr (v # vs, rest'))
               else Inl SyntaxError))"
| "parse_members 0 acc s = Inl SyntaxError"
| "parse_members (Suc n) acc s =
     (case skip_ws s of
        [] \<Rightarrow> Inl SyntaxError
      | q # cs \<Rightarrow>
          if q \<noteq> 0x22 then Inl SyntaxError
          else
            (case parse_string_chars cs of
               None \<Rightarrow> Inl SyntaxError
             | Some (k, rest) \<Rightarrow>
                 (case skip_ws rest of
                    [] \<Rightarrow> Inl SyntaxError
                  | colon # cs' \<Rightarrow>
                      if colon \<noteq> 0x3A then Inl SyntaxError
                      else
                        (case parse_value n cs' of
                           Inl e \<Rightarrow> Inl e
                         | Inr (v, rest') \<Rightarrow>
                             (case skip_ws rest' of
                                [] \<Rightarrow> Inl SyntaxError
                              | c # cs'' \<Rightarrow>
                                  if c = 0x7D then Inr (define_property k v acc, cs'')
                                  else if c = 0x2C then
                                    parse_members n (define_property k v acc) cs''
                                  else Inl SyntaxError)))))"

definition JSON_parse :: "jsstring \<Rightarrow> js_error + jsval" where
  "JSON_parse s =
     (case parse_value (Suc (length s)) s of
        Inl e \<Rightarrow> Inl e
      | Inr (v, rest) \<Rightarrow> if skip_ws rest = [] then Inr v else Inl SyntaxError)"

text \<open>Where the source uses a possibly \<open>undefined\<close> string as a value.\<close>

definition string_or_undefined :: "jsstring option \<Rightarrow> jsval" where
  "string_or_undefined r = (case r of None \<Rightarrow> JUndefined | Some str \<Rightarrow> JStr str)"

text \<open>ToString of a possibly \<open>undefined\<close> string, as \<open>localStorage.setItem\<close> applies it.\<close>

definition ToString :: "jsstring option \<Rightarrow> jsstring" where
  "ToString r = (case r of None \<Rightarrow> ascii ''undefined'' | Some str \<Rightarrow> str)"

section \<open>The network\<close>

text \<open>
  A request is the URL and what the handler passes as its data (\<open>axios.post\<close>) or body
  (\<open>fetch\<close>). What the handler awaits either fulfils with the decoded response body or
  rejects.
\<close>

datatype request = POST jsstring jsval

datatype response = Fulfilled jsval | Rejected js_error

text \<open>
  What happens to a request on the network: no response arrives (the server cannot be
  reached, the connection breaks), or a response arrives with a status code and a body,
  which is a JSON text (given by the value it denotes) or some other text. The request
  has failed when no response arrives or the status is outside 2xx.
\<close>

datatype body = Json jsval | Not_json jsstring

datatype exchange = No_response | Http nat body

definition ok_status :: "nat \<Rightarrow> bool" where
  "ok_status status \<longleftrightarrow> 200 \<le> status \<and> status < 300"

fun request_failed :: "exchange \<Rightarrow> bool" where
  "request_failed No_response = True"
| "request_failed (Http status b) = (\<not> ok_status status)"

text \<open>
  \<open>await axios.post(url, data)\<close> in the default configuration: the promise rejects when
  no response arrives and when the status is outside 2xx; otherwise \<open>res.data\<close> is the
  decoded body, or the text of a body that is not JSON.
\<close>

fun axios_post :: "exchange \<Rightarrow> response" where
  "axios_post No_response = Rejected AxiosError"
| "axios_post (Http status b) =
     (if ok_status status
      then Fulfilled (case b of Json data \<Rightarrow> data | Not_json str \<Rightarrow> JStr str)
      else Rejected AxiosError)"

text \<open>
  \<open>await fetch(url, init)\<close> followed by \<open>await response.json()\<close>: \<open>fetch\<close> rejects with a
  TypeError only when no response arrives, and fulfils whatever the status is; the
  source does not read \<open>response.ok\<close> or \<open>response.status\<close>. \<open>response.json()\<close> rejects
  with a SyntaxError when the body is not JSON.
\<close>

fun fetch_json :: "exchange \<Rightarrow> response" where
  "fetch_json No_response = Rejected TypeError"
| "fetch_json (Http status (Json data)) = Fulfilled data"
| "fetch_json (Http status (Not_json str)) = Rejected SyntaxError"

section \<open>The query front end (agent-frontend/src/App.js)\<close>

text \<open>
  The component's state hooks \<open>query\<close> and \<open>chatHistory\<close>, and the browser's
  \<open>localStorage\<close>. \<open>chatHistory_changed\<close> is React's bookkeeping for the dependency list
  \<open>[chatHistory]\<close>: every call of \<open>setChatHistory\<close> in the source installs a freshly
  allocated array (a spread, a literal, the result of \<open>JSON.parse\<close>), which differs from
  the previous one by \<open>Object.is\<close>, so the save effect runs in the commit after it.
  The updaters passed to \<open>setChatHistory\<close> are applied at once; nothing reads the hook
  between the call and the commit.
\<close>

record chatbot =
  query :: jsstring
  chatHistory :: "jsval list"
  localStorage :: "jsstring \<rightharpoonup> jsstring"
  chatHistory_changed :: bool

definition setQuery :: "jsstring \<Rightarrow> chatbot \<Rightarrow> chatbot" where
  "setQuery q s = s\<lparr>query := q\<rparr>"

definition setChatHistory :: "(jsval list \<Rightarrow> jsval list) \<Rightarrow> chatbot \<Rightarrow> chatbot" where
  "setChatHistory f s = s\<lparr>chatHistory := f (chatHistory s), chatHistory_changed := True\<rparr>"

definition localStorage_setItem :: "jsstring \<Rightarrow> jsstring \<Rightarrow> chatbot \<Rightarrow> chatbot" where
  "localStorage_setItem k v s = s\<lparr>localStorage := (localStorage s)(k \<mapsto> v)\<rparr>"

definition localStorage_removeItem :: "jsstring \<Rightarrow> chatbot \<Rightarrow> chatbot" where
  "localStorage_removeItem k s = s\<lparr>localStorage := (localStorage s)(k := None)\<rparr>"

text \<open>
  The save effect (lines 20-23), with the \<open>chatHistory\<close> of the render that created it.
  Scrolling the view is not modelled.
\<close>

definition save_effect :: "jsval list \<Rightarrow> chatbot \<Rightarrow> chatbot" where
  "save_effect h s =
     localStorage_setItem (ascii ''chatHistory'') (ToString (JSON_stringify (JArr h))) s"

text \<open>The commit that follows an event: the save effect runs if its dependency changed.\<close>

definition commit :: "chatbot \<Rightarrow> chatbot" where
  "commit s =
     (if chatHistory_changed s
      then save_effect (chatHistory s) (s\<lparr>chatHistory_changed := False\<rparr>)
      else s)"

text \<open>
  \<open>handleSubmit\<close> up to its \<open>await\<close> (lines 25-34): the state after the synchronous part
  and the request issued, if any. \<open>e.preventDefault()\<close> keeps the browser from submitting
  the form and touches no state.
\<close>

definition handleSubmit :: "chatbot \<Rightarrow> chatbot \<times> request option" where
  "handleSubmit s =
     (if \<not> truthy (JStr (trim (query s))) then (s, None)
      else
        let userMessage = JObj [(ascii ''sender'', JStr (ascii ''user'')),
                                (ascii ''text'', JStr (query s))];
            s1 = setChatHistory (\<lambda>prev. prev @ [userMessage]) s;
            s2 = setQuery [] s1
        in (s2, Some (POST (ascii ''http://localhost:8000/query'')
                           (JObj [(ascii ''query'', JStr (query s))]))))"

text \<open>Line 35: \<open>res.data.reply || res.data.insight || JSON.stringify(res.data, null, 2)\<close>.\<close>

definition rawReply :: "jsval \<Rightarrow> js_error + jsval" where
  "rawReply data =
     (case get_prop data (ascii ''reply'') of
        Inl e \<Rightarrow> Inl e
      | Inr reply \<Rightarrow>
          if truthy reply then Inr reply
          else (case get_prop data (ascii ''insight'') of
                  Inl e \<Rightarrow> Inl e
                | Inr insight \<Rightarrow>
                    if truthy insight then Inr insight
                    else Inr (string_or_undefined (JSON_stringify_2 data))))"

text \<open>
  \<open>handleSubmit\<close> after its \<open>await\<close> (lines 34-44): the \<open>try\<close> block is the computation
  of the reply, the \<open>catch\<close> block the \<open>Inl\<close> branch.
\<close>

definition handleSubmit_resume :: "response \<Rightarrow> chatbot \<Rightarrow> chatbot" where
  "handleSubmit_resume r s =
     (case (case r of Rejected e \<Rightarrow> Inl e | Fulfilled data \<Rightarrow> rawReply data) of
        Inr cleanReply \<Rightarrow>
          (let botMessage = JObj [(ascii ''sender'', JStr (ascii ''bot'')),
                                  (ascii ''text'', cleanReply)]
           in setChatHistory (\<lambda>prev. prev @ [botMessage]) s)
      | Inl err \<Rightarrow>
          setChatHistory
            (\<lambda>prev. prev @ [JObj [(ascii ''sender'', JStr (ascii ''bot'')),
                                   (ascii ''text'', JStr (ascii ''Something went wrong.''))]]) s)"

definition handleClear :: "chatbot \<Rightarrow> chatbot" where
  "handleClear s = localStorage_removeItem (ascii ''chatHistory'') (setChatHistory (\<lambda>prev. []) s)"

text \<open>
  The load effect (lines 12-17): the value it passes to \<open>setChatHistory\<close>, if it calls
  it. \<open>getItem\<close> gives \<open>null\<close> for a missing key, and the empty string is falsy too.
\<close>

definition load_effect :: "chatbot \<Rightarrow> js_error + jsval option" where
  "load_effect s =
     (case localStorage s (ascii ''chatHistory'') of
        None \<Rightarrow> Inr None
      | Some stored \<Rightarrow>
          if \<not> truthy (JStr stored) then Inr None
          else (case JSON_parse stored of
                  Inl e \<Rightarrow> Inl e
                | Inr v \<Rightarrow> Inr (Some v)))"

text \<open>
  The render (lines 57-62) evaluates \<open>chatHistory.map\<close> and, for every element \<open>msg\<close>,
  \<open>msg.sender\<close> and \<open>msg.text\<close>. It throws a TypeError when \<open>chatHistory\<close> is not an array
  and when an element is \<open>null\<close> or \<open>undefined\<close>. What ReactMarkdown does with
  \<open>msg.text\<close> is the library's and is not modelled.
\<close>

fun renders :: "jsval \<Rightarrow> bool" where
  "renders (JArr h) =
     list_all (\<lambda>msg. case get_prop msg (ascii ''sender'') of Inl e \<Rightarrow> False | Inr v \<Rightarrow> True) h"
| "renders v = False"

text \<open>
  Mounting the component over a given \<open>localStorage\<close>: the first render has the initial
  hook values; its commit runs the two effects in the order of their declaration, the
  save effect with the empty \<open>chatHistory\<close> of that render; the render caused by the
  load effect follows, and its commit runs the save effect again. An error thrown by an
  effect or by a render is caught by nothing in the source: React removes the page, and
  the result is the error. Each effect runs once per commit, as in a production build;
  the second run of mount effects that React's StrictMode adds in development is not
  modelled.
\<close>

definition mount :: "(jsstring \<rightharpoonup> jsstring) \<Rightarrow> js_error + chatbot" where
  "mount storage =
     (let first_render =
            \<lparr>query = [], chatHistory = [], localStorage = storage, chatHistory_changed = False\<rparr>
      in case load_effect first_render of
           Inl e \<Rightarrow> Inl e
         | Inr None \<Rightarrow> Inr (save_effect (chatHistory first_render) first_render)
         | Inr (Some v) \<Rightarrow>
             (case v of
                JArr h \<Rightarrow>
                  if renders v
                  then Inr (commit (save_effect (chatHistory first_render)
                                      (setChatHistory (\<lambda>prev. h) first_render)))
                  else Inl TypeError
              | _ \<Rightarrow> Inl TypeError))"

text \<open>
  The page as the user drives it: the mounted component and the calls that are awaited.
  Nothing in the form is ever disabled, so every event is possible in every state. The
  handlers place only objects in \<open>chatHistory\<close>, so the renders after a mount do not
  throw.
\<close>

record chatbot_page =
  app :: chatbot
  outstanding :: "request list"

datatype chatbot_event =
    Type_query jsstring
  | Submit
  | Click_clear
  | Settle nat response

definition drop_nth :: "nat \<Rightarrow> 'a list \<Rightarrow> 'a list" where
  "drop_nth i xs = take i xs @ drop (Suc i) xs"

fun chatbot_step :: "chatbot_event \<Rightarrow> chatbot_page \<Rightarrow> chatbot_page" where
  "chatbot_step (Type_query q) p = p\<lparr>app := commit (setQuery q (app p))\<rparr>"
| "chatbot_step Submit p =
     (case handleSubmit (app p) of
        (s, None) \<Rightarrow> p\<lparr>app := commit s\<rparr>
      | (s, Some rq) \<Rightarrow> p\<lparr>app := commit s, outstanding := outstanding p @ [rq]\<rparr>)"
| "chatbot_step Click_clear p = p\<lparr>app := commit (handleClear (app p))\<rparr>"
| "chatbot_step (Settle i r) p =
     (if i < length (outstanding p)
      then p\<lparr>app := commit (handleSubmit_resume r (app p)),
             outstanding := drop_nth i (outstanding p)\<rparr>
      else p)"

section \<open>The start-chat and follow-up front end (the second App component)\<close>

record insights =
  company :: jsstring
  chat :: "jsval list"
  loading :: bool
  followUp :: jsstring

text \<open>\<open>handleStartChat\<close> up to its first \<open>await\<close> (lines 10-18).\<close>

definition handleStartChat :: "insights \<Rightarrow> insights \<times> request option" where
  "handleStartChat s =
     (if \<not> truthy (JStr (trim (company s))) then (s, None)
      else (s\<lparr>loading := True\<rparr>,
            Some (POST (ascii ''http://localhost:8000/start_chat'')
                       (string_or_undefined
                          (JSON_stringify (JObj [(ascii ''company'', JStr (company s))]))))))"

text \<open>
  How a handler goes on after its awaits. There is no \<open>try\<close> in this component and no
  error boundary around it. Either the handler calls its setters and the page is
  rendered with the new state; or the handler's promise rejects before any setter is
  called, and the state stays as it was; or the setters are called and the render that
  follows throws, and React removes the page.
\<close>

datatype resumption = Rendered insights | Handler_rejected js_error | Page_removed js_error

text \<open>
  \<open>handleStartChat\<close> after \<open>fetch\<close> and \<open>response.json()\<close> (lines 20-22). The argument
  of \<open>setChat\<close> is evaluated in the handler: the TypeError of \<open>data.insight\<close> on \<open>null\<close>
  rejects the handler's promise, as a rejected await does.
\<close>

definition handleStartChat_resume :: "response \<Rightarrow> insights \<Rightarrow> resumption" where
  "handleStartChat_resume r s =
     (case r of
        Rejected e \<Rightarrow> Handler_rejected e
      | Fulfilled data \<Rightarrow>
          (case get_prop data (ascii ''insight'') of
             Inl e \<Rightarrow> Handler_rejected e
           | Inr insight \<Rightarrow>
               Rendered (s\<lparr>chat := [JObj [(ascii ''role'', JStr (ascii ''bot'')),
                                           (ascii ''text'', insight)]],
                           loading := False\<rparr>)))"

text \<open>\<open>handleFollowUp\<close> up to its first \<open>await\<close> (lines 25-33).\<close>

definition handleFollowUp :: "insights \<Rightarrow> insights \<times> request option" where
  "handleFollowUp s =
     (if \<not> truthy (JStr (trim (followUp s))) then (s, None)
      else (s\<lparr>loading := True\<rparr>,
            Some (POST (ascii ''http://localhost:8000/follow_up'')
                       (string_or_undefined
                          (JSON_stringify (JObj [(ascii ''question'', JStr (followUp s))]))))))"

text \<open>
  \<open>handleFollowUp\<close> after its awaits (lines 35-38). \<open>asked\<close> is the \<open>followUp\<close> the
  handler's closure holds, the value at the click; the input stays editable while the
  call is awaited. \<open>setChat\<close> is given an updater function, and \<open>data.reply\<close> is read
  when React runs it: on \<open>null\<close> the handler goes on to the end (\<open>setFollowUp\<close>,
  \<open>setLoading\<close>) and the TypeError is thrown in the render.
\<close>

definition handleFollowUp_resume :: "jsstring \<Rightarrow> response \<Rightarrow> insights \<Rightarrow> resumption" where
  "handleFollowUp_resume asked r s =
     (case r of
        Rejected e \<Rightarrow> Handler_rejected e
      | Fulfilled data \<Rightarrow>
          (case get_prop data (ascii ''reply'') of
             Inl e \<Rightarrow> Page_removed e
           | Inr reply \<Rightarrow>
               Rendered (s\<lparr>chat := chat s @ [JObj [(ascii ''role'', JStr (ascii ''user'')),
                                                    (ascii ''text'', JStr asked)],
                                              JObj [(ascii ''role'', JStr (ascii ''bot'')),
                                                    (ascii ''text'', reply)]],
                           followUp := [],
                           loading := False\<rparr>)))"

text \<open>
  The page: the component with its state and the calls that are awaited, each with the
  handler that waits for it; or nothing, once React has removed the component. Both
  buttons carry \<open>disabled={loading}\<close>, and the follow-up input and button are rendered
  only when \<open>chat.length > 0\<close>. A click on a disabled or absent button calls no handler.
\<close>

datatype awaited = Await_start_chat | Await_follow_up jsstring

datatype insights_page =
    Page (view: insights) (awaiting: "awaited list")
  | Removed
where
  "awaiting Removed = []"

datatype insights_event =
    Type_company jsstring
  | Type_followUp jsstring
  | Click_get_insights
  | Click_send_followUp
  | Settled nat response

fun insights_step :: "insights_event \<Rightarrow> insights_page \<Rightarrow> insights_page" where
  "insights_step e Removed = Removed"
| "insights_step (Type_company c) (Page s a) = Page (s\<lparr>company := c\<rparr>) a"
| "insights_step (Type_followUp q) (Page s a) =
     (if chat s = [] then Page s a else Page (s\<lparr>followUp := q\<rparr>) a)"
| "insights_step Click_get_insights (Page s a) =
     (if loading s then Page s a
      else (case handleStartChat s of
              (s', None) \<Rightarrow> Page s' a
            | (s', Some rq) \<Rightarrow> Page s' (a @ [Await_start_chat])))"
| "insights_step Click_send_followUp (Page s a) =
     (if loading s \<or> chat s = [] then Page s a
      else (case handleFollowUp s of
              (s', None) \<Rightarrow> Page s' a
            | (s', Some rq) \<Rightarrow> Page s' (a @ [Await_follow_up (followUp s)])))"
| "insights_step (Settled i r) (Page s a) =
     (if i < length a
      then (case (case a ! i of
                    Await_start_chat \<Rightarrow> handleStartChat_resume r s
                  | Await_follow_up asked \<Rightarrow> handleFollowUp_resume asked r s) of
              Rendered s' \<Rightarrow> Page s' (drop_nth i a)
            | Handler_rejected e \<Rightarrow> Page s (drop_nth i a)
            | Page_removed e \<Rightarrow> Removed)
      else Page s a)"

section \<open>Runs of the pages and predicates on their states\<close>

text \<open>The second page as first rendered: the initial values of its four state hooks.\<close>

definition insights_initial :: insights_page where
  "insights_initial = Page \<lparr>company = [], chat = [], loading = False, followUp = []\<rparr> []"

fun insights_run :: "insights_event list \<Rightarrow> insights_page \<Rightarrow> insights_page" where
  "insights_run [] p = p"
| "insights_run (e # es) p = insights_run es (insights_step e p)"

fun chatbot_run :: "chatbot_event list \<Rightarrow> chatbot_page \<Rightarrow> chatbot_page" where
  "chatbot_run [] p = p"
| "chatbot_run (e # es) p = chatbot_run es (chatbot_step e p)"

text \<open>The key \<open>chatHistory\<close> holds the serialisation of the whole current transcript.\<close>

definition persisted :: "chatbot \<Rightarrow> bool" where
  "persisted s \<longleftrightarrow>
     localStorage s (ascii ''chatHistory'') = JSON_stringify (JArr (chatHistory s))"

text \<open>
  A message object: the property \<open>tag\<close> is the string \<open>user\<close> or \<open>bot\<close>, and there is
  a property \<open>text\<close>.
\<close>

fun tagged_message :: "jsstring \<Rightarrow> jsval \<Rightarrow> bool" where
  "tagged_message tag (JObj kvs) =
     ((map_of kvs tag = Some (JStr (ascii ''user'')) \<or> map_of kvs tag = Some (JStr (ascii ''bot'')))
      \<and> map_of kvs (ascii ''text'') \<noteq> None)"
| "tagged_message tag v = False"

text \<open>
  The values that \<open>JSON.parse\<close> gives back as \<open>JSON.stringify\<close> was given them: no
  \<open>undefined\<close> inside, numbers that are doubles other than the negative zero, objects
  with their properties in enumeration order.
\<close>

fun property_order :: "jsstring list \<Rightarrow> bool" where
  "property_order [] = True"
| "property_order (k # ks) =
     (k \<notin> set ks \<and> list_all (\<lambda>k'. \<not> enumerated_before k' k) ks \<and> property_order ks)"

fun json_number :: "js_number \<Rightarrow> bool" where
  "json_number (Finite q) = is_double q"
| "json_number x = False"

fun json_value :: "jsval \<Rightarrow> bool"
  and json_values :: "jsval list \<Rightarrow> bool"
  and json_members :: "(jsstring \<times> jsval) list \<Rightarrow> bool"
where
  "json_value JUndefined = False"
| "json_value JNull = True"
| "json_value (JBool b) = True"
| "json_value (JNum x) = json_number x"
| "json_value (JStr s) = True"
| "json_value (JArr xs) = json_values xs"
| "json_value (JObj kvs) = (property_order (map fst kvs) \<and> json_members kvs)"
| "json_values [] = True"
| "json_values (x # xs) = (json_value x \<and> json_values xs)"
| "json_members [] = True"
| "json_members ((k, v) # kvs) = (json_value v \<and> json_members kvs)"


text \<open>What can follow a value in a JSON text without whitespace: nothing, or \<open>,\<close> \<open>]\<close> \<open>}\<close>.\<close>

definition value_end :: "jsstring \<Rightarrow> bool" where
  "value_end rest \<longleftrightarrow> rest = [] \<or> hd rest = 0x2C \<or> hd rest = 0x5D \<or> hd rest = 0x7D"

text \<open>
  What the \<open>disabled\<close> attribute maintains: no call is awaited, or one is and the loading
  flag is set.
\<close>

definition one_call_at_most :: "insights_page \<Rightarrow> bool" where
  "one_call_at_most p \<longleftrightarrow> awaiting p = [] \<or> (length (awaiting p) = 1 \<and> loading (view p))"

section \<open>Properties\<close>

subsection \<open>Handlers and effects\<close>

lemma trim_blank: "(\<forall>c\<in>set q. is_js_whitespace c) \<Longrightarrow> trim q = []"
proof -
  assume "\<forall>c\<in>set q. is_js_whitespace c"
  then have d: "dropWhile is_js_whitespace q = []"
    by simp
  show ?thesis
    unfolding trim_def d by simp
qed

lemma trim_empty_only_if_blank: "trim q = [] \<Longrightarrow> \<forall>c\<in>set q. is_js_whitespace c"
proof -
  assume "trim q = []"
  then have all: "\<forall>c\<in>set (dropWhile is_js_whitespace q). is_js_whitespace c"
    by (simp add: trim_def)
  have "dropWhile is_js_whitespace q = []"
  proof (rule ccontr)
    assume ne: "dropWhile is_js_whitespace q \<noteq> []"
    then have "\<not> is_js_whitespace (hd (dropWhile is_js_whitespace q))"
      by (rule hd_dropWhile)
    moreover have "hd (dropWhile is_js_whitespace q) \<in> set (dropWhile is_js_whitespace q)"
      using ne by simp
    ultimately show False using all by blast
  qed
  then show ?thesis
    by simp
qed

lemma stored_serialisation: "Some (ToString (JSON_stringify (JArr h))) = JSON_stringify (JArr h)"
  by (simp add: JSON_stringify_def ToString_def)

lemma handleSubmit_blank: "trim (query s) = [] \<Longrightarrow> handleSubmit s = (s, None)"
  by (simp add: handleSubmit_def)

lemma handleSubmit_nonblank:
  "trim (query s) \<noteq> [] \<Longrightarrow>
   handleSubmit s =
     (s\<lparr>query := [],
        chatHistory := chatHistory s @ [JObj [(ascii ''sender'', JStr (ascii ''user'')),
                                              (ascii ''text'', JStr (query s))]],
        chatHistory_changed := True\<rparr>,
      Some (POST (ascii ''http://localhost:8000/query'') (JObj [(ascii ''query'', JStr (query s))])))"
  by (simp add: handleSubmit_def setChatHistory_def setQuery_def Let_def)

lemma handleSubmit_resume_appends:
  "\<exists>t. handleSubmit_resume r s =
         s\<lparr>chatHistory := chatHistory s @ [JObj [(ascii ''sender'', JStr (ascii ''bot'')),
                                               (ascii ''text'', t)]],
           chatHistory_changed := True\<rparr>"
  by (auto simp add: handleSubmit_resume_def setChatHistory_def Let_def split: sum.splits response.splits)

lemma chatHistory_commit [simp]: "chatHistory (commit s) = chatHistory s"
  by (simp add: commit_def save_effect_def localStorage_setItem_def)

lemma query_commit [simp]: "query (commit s) = query s"
  by (simp add: commit_def save_effect_def localStorage_setItem_def)

lemma chatbot_append_only:
  "e \<noteq> Click_clear \<Longrightarrow>
     \<exists>added. chatHistory (app (chatbot_step e p)) = chatHistory (app p) @ added"
proof (cases e)
  case (Type_query q)
  then show ?thesis by (simp add: setQuery_def)
next
  case Submit
  then show ?thesis
    by (cases "trim (query (app p)) = []") (simp_all add: handleSubmit_blank handleSubmit_nonblank)
next
  case Click_clear
  assume "e \<noteq> Click_clear"
  with Click_clear show ?thesis by simp
next
  case (Settle i r)
  obtain t where "handleSubmit_resume r (app p) =
      (app p)\<lparr>chatHistory := chatHistory (app p) @ [JObj [(ascii ''sender'', JStr (ascii ''bot'')),
                                               (ascii ''text'', t)]],
           chatHistory_changed := True\<rparr>"
    using handleSubmit_resume_appends by blast
  with Settle show ?thesis by simp
qed

lemma get_prop_throws: "get_prop data k = Inl e \<Longrightarrow> data = JNull \<or> data = JUndefined"
  by (cases data) simp_all

lemma handleStartChat_click:
  "handleStartChat s = (s', rq) \<Longrightarrow> chat s' = chat s"
  by (auto simp add: handleStartChat_def split: if_splits)

lemma handleFollowUp_click:
  "handleFollowUp s = (s', rq) \<Longrightarrow> chat s' = chat s"
  by (auto simp add: handleFollowUp_def split: if_splits)

lemma insights_settled:
  assumes "insights_step (Settled i r) (Page s a) = Page s' a'"
  shows "chat s' = chat s \<or>
         (\<exists>asked data reply. r = Fulfilled data \<and> i < length a \<and> a ! i = Await_follow_up asked \<and>
            get_prop data (ascii ''reply'') = Inr reply \<and>
            chat s' = chat s @ [JObj [(ascii ''role'', JStr (ascii ''user'')), (ascii ''text'', JStr asked)],
                                JObj [(ascii ''role'', JStr (ascii ''bot'')), (ascii ''text'', reply)]]) \<or>
         (\<exists>data insight. r = Fulfilled data \<and> i < length a \<and> a ! i = Await_start_chat \<and>
            get_prop data (ascii ''insight'') = Inr insight \<and>
            chat s' = [JObj [(ascii ''role'', JStr (ascii ''bot'')), (ascii ''text'', insight)]])"
proof (cases "i < length a")
  case False
  with assms show ?thesis by simp
next
  case True
  show ?thesis
  proof (cases "a ! i")
    case Await_start_chat
    with True assms show ?thesis
      by (cases r; cases "get_prop (case r of Fulfilled d \<Rightarrow> d) (ascii ''insight'')")
         (auto simp add: handleStartChat_resume_def)
  next
    case (Await_follow_up asked)
    with True assms show ?thesis
      by (cases r; cases "get_prop (case r of Fulfilled d \<Rightarrow> d) (ascii ''reply'')")
         (auto simp add: handleFollowUp_resume_def)
  qed
qed

lemma insights_step_transcript:
  assumes "insights_step f (Page s a) = Page s' a'"
  shows "(\<exists>added. chat s' = chat s @ added) \<or>
         (\<exists>i data insight. f = Settled i (Fulfilled data) \<and> i < length a \<and> a ! i = Await_start_chat \<and>
            get_prop data (ascii ''insight'') = Inr insight \<and>
            chat s' = [JObj [(ascii ''role'', JStr (ascii ''bot'')), (ascii ''text'', insight)]])"
proof (cases f)
  case (Type_company c)
  with assms show ?thesis by auto
next
  case (Type_followUp q)
  with assms show ?thesis by (auto split: if_splits)
next
  case Click_get_insights
  with assms show ?thesis
    by (auto simp add: handleStartChat_def split: if_splits)
next
  case Click_send_followUp
  with assms show ?thesis
    by (auto simp add: handleFollowUp_def split: if_splits)
next
  case (Settled i r)
  with assms insights_settled [of i r s a s' a'] show ?thesis
    by auto
qed

lemma insights_step_removed:
  assumes "insights_step f (Page s a) = Removed"
  shows "\<exists>i asked data. f = Settled i (Fulfilled data) \<and> i < length a \<and>
           a ! i = Await_follow_up asked \<and> (data = JNull \<or> data = JUndefined)"
proof (cases f)
  case (Type_company c)
  with assms show ?thesis by simp
next
  case (Type_followUp q)
  with assms show ?thesis by (simp split: if_splits)
next
  case Click_get_insights
  with assms show ?thesis
    by (simp add: handleStartChat_def split: if_splits)
next
  case Click_send_followUp
  with assms show ?thesis
    by (simp add: handleFollowUp_def split: if_splits)
next
  case (Settled i r)
  show ?thesis
  proof (cases "i < length a")
    case False
    with assms Settled show ?thesis by simp
  next
    case True
    show ?thesis
    proof (cases "a ! i")
      case Await_start_chat
      with True assms Settled show ?thesis
        by (auto simp add: handleStartChat_resume_def split: response.splits sum.splits)
    next
      case (Await_follow_up asked)
      with True assms Settled show ?thesis
        by (auto simp add: handleFollowUp_resume_def dest: get_prop_throws
            split: response.splits sum.splits)
    qed
  qed
qed

lemma start_chat_replaces:
  "i < length a \<Longrightarrow> a ! i = Await_start_chat \<Longrightarrow> get_prop data (ascii ''insight'') = Inr insight \<Longrightarrow>
     insights_step (Settled i (Fulfilled data)) (Page s a) =
       Page (s\<lparr>chat := [JObj [(ascii ''role'', JStr (ascii ''bot'')), (ascii ''text'', insight)]],
               loading := False\<rparr>) (drop_nth i a)"
  by (simp add: handleStartChat_resume_def)

subsection \<open>Doubles and their digits\<close>

text \<open>
  A double is its own rounding, and the integers below \<open>2^53\<close> are doubles. The digits
  that \<open>double_digits\<close> gives for a double denote a decimal that rounds to it: those of
  the search because the search tests it, those of the exact expansion because they
  denote the double itself.
\<close>

lemma round_half_even_of_int: "round_half_even (of_int m) = m"
  by (simp add: round_half_even_def)

lemma nearest_double_zero: "nearest_double 0 = Some 0"
  by (simp add: nearest_double_def round_half_even_def bit_length.simps [of 0])

lemma double_units:
  assumes "is_double q" "0 \<le> q"
  shows "\<exists>u. q * 2 ^ 1074 = of_nat u \<and> u < 2 ^ 2098 \<and> 2 ^ (bit_length u - 53) dvd u"
proof -
  have "\<bar>q\<bar> = q" using assms(2) by simp
  with assms(1) show ?thesis
    unfolding is_double_def Let_def by metis
qed

lemma nearest_double_double:
  assumes "is_double q" "0 \<le> q"
  shows "nearest_double q = Some q"
proof -
  obtain u where u: "q * 2 ^ 1074 = of_nat u" and bound: "u < 2 ^ 2098"
    and d: "2 ^ (bit_length u - 53) dvd u"
    using double_units [OF assms] by blast
  define sh where "sh = bit_length u - 53"
  from d obtain m where m: "u = 2 ^ sh * m"
    unfolding sh_def by (auto simp add: dvd_def)
  have fl: "nat \<lfloor>(of_nat u :: rat)\<rfloor> = u" by simp
  have quot: "(of_nat u :: rat) / 2 ^ sh = of_int (int m)"
    by (simp add: m)
  have units: "round_half_even (of_nat u / 2 ^ sh) * 2 ^ sh = int u"
    unfolding quot round_half_even_of_int by (simp add: m)
  have nb: "\<not> (2 ^ 2098 \<le> int u)"
    using bound by (simp flip: of_nat_power add: not_le)
  have same: "(of_int (int u) :: rat) / 2 ^ 1074 = q"
    using u by (simp add: field_simps)
  show ?thesis
    unfolding nearest_double_def Let_def u fl sh_def [symmetric] units
    using nb same by simp
qed

lemma strip_zeros_value:
  "strip_zeros s e = (s', e') \<Longrightarrow>
     (of_nat s' :: rat) * 10 powi e' = of_nat s * 10 powi e \<and> (0 < s \<longrightarrow> 0 < s')"
proof (induction s e rule: strip_zeros.induct)
  case (1 s e)
  show ?case
  proof (cases "0 < s \<and> s mod 10 = 0")
    case True
    then have eq: "strip_zeros s e = strip_zeros (s div 10) (e + 1)"
      by (subst strip_zeros.simps) simp
    from True have s: "s = s div 10 * 10" by auto
    from True have pos: "0 < s div 10" by auto
    from 1(1) [OF True] 1(2) eq
    have ih: "(of_nat s' :: rat) * 10 powi e' = of_nat (s div 10) * 10 powi (e + 1) \<and> 0 < s'"
      using pos by simp
    have "(of_nat (s div 10) :: rat) * 10 powi (e + 1) = of_nat (s div 10 * 10) * 10 powi e"
      by (simp add: power_int_add)
    with ih s show ?thesis by simp
  next
    case False
    then have "strip_zeros s e = (s, e)"
      by (subst strip_zeros.simps) auto
    with 1(2) show ?thesis by simp
  qed
qed

lemma digits_candidate_rounds:
  "digits_candidate x n k = Some (s, e) \<Longrightarrow> nearest_double (of_nat s * 10 powi e) = Some x"
proof -
  define lo where "lo = nat \<lfloor>x * 10 powi (- (n - int k))\<rfloor>"
  assume a: "digits_candidate x n k = Some (s, e)"
  have cases: "digits_candidate x n k = Some (lo, n - int k) \<and> nearest_double (of_nat lo * 10 powi (n - int k)) = Some x
     \<or> digits_candidate x n k = Some (Suc lo, n - int k) \<and> nearest_double (of_nat (Suc lo) * 10 powi (n - int k)) = Some x
     \<or> digits_candidate x n k = None"
    unfolding digits_candidate_def Let_def lo_def [symmetric]
    by (cases "nearest_double (of_nat lo * 10 powi (n - int k)) = Some x";
        cases "nearest_double (of_nat (Suc lo) * 10 powi (n - int k)) = Some x") simp_all
  with a show ?thesis by auto
qed

lemma shortest_digits_rounds:
  "shortest_digits fuel k x n = Some (s, e) \<Longrightarrow> nearest_double (of_nat s * 10 powi e) = Some x"
proof (induction fuel arbitrary: k)
  case 0
  then show ?case by simp
next
  case (Suc fuel)
  show ?case
  proof (cases "digits_candidate x n k")
    case None
    with Suc.prems have "shortest_digits fuel (Suc k) x n = Some (s, e)" by simp
    then show ?thesis by (rule Suc.IH)
  next
    case (Some c)
    with Suc.prems have "digits_candidate x n k = Some (s, e)" by simp
    then show ?thesis by (rule digits_candidate_rounds)
  qed
qed

lemma exact_decimal:
  fixes x :: rat
  assumes "x * 2 ^ n = of_nat u"
  shows "of_nat (nat \<lfloor>x * 10 ^ n\<rfloor>) * 10 powi (- int n) = x"
proof -
  have "(10::rat) ^ n = (2 * 5) ^ n" by simp
  also have "\<dots> = 2 ^ n * 5 ^ n" by (rule power_mult_distrib)
  finally have ten: "(10::rat) ^ n = 2 ^ n * 5 ^ n" .
  have "x * 10 ^ n = (x * 2 ^ n) * 5 ^ n"
    unfolding ten by (simp only: mult.assoc)
  also have "\<dots> = of_nat (u * 5 ^ n)"
    unfolding assms by simp
  finally have whole: "x * 10 ^ n = of_nat (u * 5 ^ n)" .
  have "(of_nat (nat \<lfloor>x * 10 ^ n\<rfloor>) :: rat) = x * 10 ^ n"
    unfolding whole by simp
  then show ?thesis
    by (simp add: power_int_minus)
qed

lemma exact_expansion_value:
  assumes "is_double x" "0 \<le> x"
  shows "exact_expansion x = (s, e) \<Longrightarrow> (of_nat s :: rat) * 10 powi e = x"
proof -
  obtain u where u: "x * 2 ^ 1074 = of_nat u"
    using double_units [OF assms] by blast
  have i: "- int 1074 = - 1074" by simp
  assume "exact_expansion x = (s, e)"
  then have se: "s = nat \<lfloor>x * 10 ^ 1074\<rfloor>" "e = - 1074"
    by (simp_all only: exact_expansion_def prod.inject)
  from exact_decimal [OF u] show ?thesis
    by (simp only: i se)
qed

lemma double_digits_rounds:
  assumes "is_double x" "0 < x" "double_digits x = (s, n)"
  shows "0 < s \<and> nearest_double (of_nat s * 10 powi (n - int (length (dec_digits s)))) = Some x"
proof -
  define found where "found = (case shortest_digits 17 1 x (decimal_exponent x) of
                      Some c \<Rightarrow> c
                    | None \<Rightarrow> exact_expansion x)"
  obtain s0 e0 where c: "found = (s0, e0)"
    by (cases found)
  obtain s1 e1 where st: "strip_zeros s0 e0 = (s1, e1)"
    by (cases "strip_zeros s0 e0")
  have dd: "double_digits x =
      (let (s, e) = found; (s', e') = strip_zeros s e in (s', e' + int (length (dec_digits s'))))"
    unfolding double_digits_def found_def ..
  from assms(3) c st have s: "s = s1" and n: "n = e1 + int (length (dec_digits s1))"
    by (auto simp add: dd)
  from assms(2) have nonneg: "0 \<le> x" by simp
  have r0: "nearest_double (of_nat s0 * 10 powi e0) = Some x"
  proof (cases "shortest_digits 17 1 x (decimal_exponent x)")
    case None
    with c have "exact_expansion x = (s0, e0)" by (simp add: found_def)
    then have "(of_nat s0 :: rat) * 10 powi e0 = x"
      by (rule exact_expansion_value [OF assms(1) nonneg])
    then show ?thesis
      using nearest_double_double [OF assms(1) nonneg] by (simp only:)
  next
    case (Some p)
    with c have "shortest_digits 17 1 x (decimal_exponent x) = Some (s0, e0)"
      by (simp add: found_def)
    then show ?thesis by (rule shortest_digits_rounds)
  qed
  have pos0: "0 < s0"
  proof (rule ccontr)
    assume "\<not> 0 < s0"
    then have "s0 = 0" by simp
    with r0 have "nearest_double 0 = Some x" by simp
    with assms(2) show False by (simp add: nearest_double_zero)
  qed
  from strip_zeros_value [OF st] pos0
  have v: "(of_nat s1 :: rat) * 10 powi e1 = of_nat s0 * 10 powi e0" and pos1: "0 < s1"
    by simp_all
  show ?thesis
    using r0 v pos1 by (simp add: s n)
qed





subsection \<open>JSON.parse after JSON.stringify\<close>

text \<open>
  The parser reads back what the serialiser writes without indentation: strings with
  their escapes, numbers in each of the four layouts of \<open>Number::toString\<close>, and by
  mutual induction arrays and objects. The fuel that \<open>JSON_parse\<close> gives is enough
  because the parser is given more fuel than the text has code units.
\<close>

lemma small_nat_cases:
  "d < 16 \<Longrightarrow> d = 0 \<or> d = 1 \<or> d = 2 \<or> d = 3 \<or> d = 4 \<or> d = 5 \<or> d = 6 \<or> d = 7 \<or> d = 8 \<or>
     d = 9 \<or> d = 10 \<or> d = 11 \<or> d = 12 \<or> d = 13 \<or> d = 14 \<or> d = (15::nat)"
  by arith

lemma unat_16_bound: "unat (c :: 16 word) < 65536"
  using unsigned_less [of c, where ?'a = nat] by simp

lemma hex_value_hex_digit: "d < 16 \<Longrightarrow> hex_value (hex_digit d) = Some d"
proof -
  assume "d < 16"
  then have "d = 0 \<or> d = 1 \<or> d = 2 \<or> d = 3 \<or> d = 4 \<or> d = 5 \<or> d = 6 \<or> d = 7 \<or> d = 8 \<or>
     d = 9 \<or> d = 10 \<or> d = 11 \<or> d = 12 \<or> d = 13 \<or> d = 14 \<or> d = 15"
    by (rule small_nat_cases)
  then show ?thesis
    by (elim disjE) (simp_all add: hex_value_def hex_digit_def)
qed

lemma hex_recombine:
  "((n div 4096 * 16 + n div 256 mod 16) * 16 + n div 16 mod 16) * 16 + n mod 16 = (n::nat)"
proof -
  have a: "n div 16 div 16 = n div 256"
    by (simp add: div_mult2_eq [symmetric])
  have b: "n div 256 div 16 = n div 4096"
    by (simp add: div_mult2_eq [symmetric])
  have 1: "n div 16 * 16 + n mod 16 = n"
    by simp
  have 2: "n div 256 * 16 + n div 16 mod 16 = n div 16"
    using div_mult_mod_eq [of "n div 16" 16] by (simp only: a)
  have 3: "n div 4096 * 16 + n div 256 mod 16 = n div 256"
    using div_mult_mod_eq [of "n div 256" 16] by (simp only: b)
  show ?thesis
    by (simp only: 3 2 1)
qed

lemma unicode_escape_roundtrip:
  "unicode_escape_value (hex_digit (unat c div 4096)) (hex_digit (unat c div 256 mod 16))
       (hex_digit (unat c div 16 mod 16)) (hex_digit (unat c mod 16)) = Some c"
proof -
  have "unat c < 65536" by (rule unat_16_bound)
  then have "unat c div 4096 < 16" by simp
  then have h3: "hex_value (hex_digit (unat c div 4096)) = Some (unat c div 4096)"
    by (rule hex_value_hex_digit)
  have h2: "hex_value (hex_digit (unat c div 256 mod 16)) = Some (unat c div 256 mod 16)"
    by (rule hex_value_hex_digit) simp
  have h1: "hex_value (hex_digit (unat c div 16 mod 16)) = Some (unat c div 16 mod 16)"
    by (rule hex_value_hex_digit) simp
  have h0: "hex_value (hex_digit (unat c mod 16)) = Some (unat c mod 16)"
    by (rule hex_value_hex_digit) simp
  have r: "(of_nat (((unat c div 4096 * 16 + unat c div 256 mod 16) * 16 + unat c div 16 mod 16) * 16
              + unat c mod 16) :: 16 word) = c"
    by (simp only: hex_recombine) simp
  show ?thesis
    unfolding unicode_escape_value_def by (simp only: h3 h2 h1 h0 prod.case option.case r)
qed

lemma parse_quote_unit:
  "parse_string_chars (quote_unit c @ X) =
     (case parse_string_chars X of None \<Rightarrow> None | Some (str, rest) \<Rightarrow> Some (c # str, rest))"
proof -
  have esc: "parse_string_chars (UnicodeEscape c @ X) =
     (case parse_string_chars X of None \<Rightarrow> None | Some (str, rest) \<Rightarrow> Some (c # str, rest))"
    by (simp add: UnicodeEscape_def Let_def unicode_escape_roundtrip)
  show ?thesis
    unfolding quote_unit_def
    by (auto simp add: esc simple_escape_def split: option.splits)
qed

lemma parse_quote_body:
  "parse_string_chars (quote_body s @ 0x22 # rest) = Some (s, rest)"
proof (induction s rule: quote_body.induct)
  case 1
  show ?case by simp
next
  case (2 c)
  show ?case by (simp add: parse_quote_unit)
next
  case (3 c d cs)
  show ?case
  proof (cases "is_leading_surrogate c \<and> is_trailing_surrogate d")
    case True
    then have plain: "c \<noteq> 0x22" "c \<noteq> 0x5C" "\<not> c < 0x20" "d \<noteq> 0x22" "d \<noteq> 0x5C" "\<not> d < 0x20"
      by (auto simp add: is_leading_surrogate_def is_trailing_surrogate_def
          word_le_nat_alt word_less_nat_alt)
    from True have eq: "quote_body (c # d # cs) = c # d # quote_body cs"
      by simp
    from 3(1) [OF True] have ih: "parse_string_chars (quote_body cs @ 0x22 # rest) = Some (cs, rest)" .
    show ?thesis
      unfolding eq using plain ih by simp
  next
    case False
    then have eq: "quote_body (c # d # cs) = quote_unit c @ quote_body (d # cs)"
      by auto
    from 3(2) [OF False]
    have ih: "parse_string_chars (quote_body (d # cs) @ 0x22 # rest) = Some (d # cs, rest)" .
    show ?thesis
      unfolding eq append_assoc parse_quote_unit ih by simp
  qed
qed

lemma digit_cases:
  "d < 10 \<Longrightarrow> d = 0 \<or> d = 1 \<or> d = 2 \<or> d = 3 \<or> d = 4 \<or> d = 5 \<or> d = 6 \<or> d = 7 \<or> d = 8 \<or> d = (9::nat)"
  by arith

lemma unat_digit_char: "d < 10 \<Longrightarrow> unat (48 + of_nat d :: 16 word) = 48 + d"
proof -
  assume "d < 10"
  then have "d = 0 \<or> d = 1 \<or> d = 2 \<or> d = 3 \<or> d = 4 \<or> d = 5 \<or> d = 6 \<or> d = 7 \<or> d = 8 \<or> d = 9"
    by (rule digit_cases)
  then show ?thesis
    by (elim disjE) simp_all
qed

lemma is_digit_char: "d < 10 \<Longrightarrow> is_digit (48 + of_nat d)"
  by (simp add: is_digit_def word_le_nat_alt unat_digit_char)

lemma digit_char_zero: "d < 10 \<Longrightarrow> (48 + of_nat d :: 16 word) = 0x30 \<Longrightarrow> d = 0"
proof -
  assume d: "d < 10" and "(48 + of_nat d :: 16 word) = 0x30"
  then have "unat (48 + of_nat d :: 16 word) = unat (0x30 :: 16 word)" by simp
  with d show ?thesis by (simp add: unat_digit_char)
qed

lemma dec_digits_not_empty: "dec_digits n \<noteq> []"
  by (subst dec_digits.simps) simp

lemma dec_digits_digits: "list_all is_digit (dec_digits n)"
proof (induction n rule: dec_digits.induct)
  case (1 n)
  show ?case
  proof (cases "n < 10")
    case True
    then show ?thesis by (subst dec_digits.simps) (simp add: is_digit_char)
  next
    case False
    with 1 show ?thesis by (subst dec_digits.simps) (simp add: is_digit_char)
  qed
qed

lemma digits_value_snoc: "digits_value (ds @ [c]) = 10 * digits_value ds + (unat c - 48)"
  by (simp add: digits_value_def)

lemma digits_value_dec_digits: "digits_value (dec_digits n) = n"
proof (induction n rule: dec_digits.induct)
  case (1 n)
  show ?case
  proof (cases "n < 10")
    case True
    then show ?thesis
      by (subst dec_digits.simps) (simp add: digits_value_def unat_digit_char)
  next
    case False
    with 1 show ?thesis
      by (subst dec_digits.simps) (simp add: digits_value_snoc unat_digit_char)
  qed
qed

lemma hd_dec_digits: "0 < n \<Longrightarrow> hd (dec_digits n) \<noteq> 0x30"
proof (induction n rule: dec_digits.induct)
  case (1 n)
  show ?case
  proof (cases "n < 10")
    case True
    with 1(2) show ?thesis
      using digit_char_zero [of n] by (subst dec_digits.simps) auto
  next
    case False
    then have "0 < n div 10" by simp
    with False 1(1) have "hd (dec_digits (n div 10)) \<noteq> 0x30" by simp
    with False show ?thesis
      by (subst dec_digits.simps) (simp add: dec_digits_not_empty)
  qed
qed

lemma dec_digits_no_leading_zero: "hd (dec_digits n) = 0x30 \<Longrightarrow> tl (dec_digits n) = []"
proof (cases "n = 0")
  case True
  then show ?thesis by (subst dec_digits.simps) simp
next
  case False
  assume "hd (dec_digits n) = 0x30"
  with False show ?thesis using hd_dec_digits [of n] by simp
qed

lemma value_end_not_digit: "value_end rest \<Longrightarrow> rest \<noteq> [] \<Longrightarrow> \<not> is_digit (hd rest)"
  by (auto simp add: value_end_def is_digit_def)

lemma takeWhile_digits: "value_end rest \<Longrightarrow> takeWhile is_digit (dec_digits m @ rest) = dec_digits m"
proof -
  assume ve: "value_end rest"
  have "takeWhile is_digit rest = []"
    using value_end_not_digit [OF ve] by (cases rest) simp_all
  moreover have "\<And>x. x \<in> set (dec_digits m) \<Longrightarrow> is_digit x"
    using dec_digits_digits [of m] by (simp add: list_all_iff)
  ultimately show ?thesis by (simp add: takeWhile_append2)
qed

lemma dropWhile_digits: "value_end rest \<Longrightarrow> dropWhile is_digit (dec_digits m @ rest) = rest"
proof -
  assume ve: "value_end rest"
  have "dropWhile is_digit rest = rest"
    using value_end_not_digit [OF ve] by (cases rest) simp_all
  moreover have "\<And>x. x \<in> set (dec_digits m) \<Longrightarrow> is_digit x"
    using dec_digits_digits [of m] by (simp add: list_all_iff)
  ultimately show ?thesis by (simp add: dropWhile_append2)
qed

lemma hd_dec_digits_digit: "is_digit (hd (dec_digits m))"
  using dec_digits_digits [of m] dec_digits_not_empty [of m]
  by (cases "dec_digits m") simp_all

lemma digits_value_fold:
  "foldl (\<lambda>a c. 10 * a + (unat c - 48)) a ys =
     a * 10 ^ length ys + foldl (\<lambda>a c. 10 * a + (unat c - 48)) 0 (ys :: jsstring)"
proof (induction ys rule: rev_induct)
  case Nil
  show ?case by simp
next
  case (snoc y ys)
  then show ?case by (simp add: algebra_simps)
qed

lemma digits_value_append:
  "digits_value (xs @ ys) = digits_value xs * 10 ^ length ys + digits_value ys"
  unfolding digits_value_def foldl_append by (rule digits_value_fold)

lemma digits_value_zeros: "digits_value (replicate z 0x30) = 0"
proof (induction z)
  case 0
  show ?case by (simp add: digits_value_def)
next
  case (Suc z)
  have "replicate (Suc z) (0x30 :: 16 word) = replicate z 0x30 @ [0x30]"
    by (simp add: replicate_append_same)
  then show ?case
    using Suc by (simp only: digits_value_snoc) simp
qed

lemma zeros_digits: "list_all is_digit (replicate z 0x30)"
  by (simp add: list_all_iff is_digit_def)

lemma takeWhile_digit_list:
  "list_all is_digit ds \<Longrightarrow> rest = [] \<or> \<not> is_digit (hd rest) \<Longrightarrow>
     takeWhile is_digit (ds @ rest) = ds"
proof -
  assume ds: "list_all is_digit ds" and r: "rest = [] \<or> \<not> is_digit (hd rest)"
  from r have "takeWhile is_digit rest = []" by (cases rest) auto
  moreover from ds have "\<And>x. x \<in> set ds \<Longrightarrow> is_digit x" by (simp add: list_all_iff)
  ultimately show ?thesis by (simp add: takeWhile_append2)
qed

lemma dropWhile_digit_list:
  "list_all is_digit ds \<Longrightarrow> rest = [] \<or> \<not> is_digit (hd rest) \<Longrightarrow>
     dropWhile is_digit (ds @ rest) = rest"
proof -
  assume ds: "list_all is_digit ds" and r: "rest = [] \<or> \<not> is_digit (hd rest)"
  from r have "dropWhile is_digit rest = rest" by (cases rest) auto
  moreover from ds have "\<And>x. x \<in> set ds \<Longrightarrow> is_digit x" by (simp add: list_all_iff)
  ultimately show ?thesis by (simp add: dropWhile_append2)
qed

lemma value_end_after:
  "value_end rest \<Longrightarrow>
     (rest = [] \<or> \<not> is_digit (hd rest)) \<and> parse_fraction rest = Some ([], rest) \<and>
     parse_exponent rest = Some (0, rest)"
  by (cases rest) (auto simp add: value_end_def is_digit_def parse_fraction_def parse_exponent_def)

lemma parse_fraction_digits:
  "list_all is_digit fs \<Longrightarrow> fs \<noteq> [] \<Longrightarrow> rest = [] \<or> \<not> is_digit (hd rest) \<Longrightarrow>
     parse_fraction (0x2E # fs @ rest) = Some (fs, rest)"
  by (simp add: parse_fraction_def takeWhile_digit_list dropWhile_digit_list)

lemma parse_exponent_digits:
  assumes "value_end rest"
  shows "parse_exponent (0x65 # 0x2B # dec_digits m @ rest) = Some (int m, rest)"
    and "parse_exponent (0x65 # 0x2D # dec_digits m @ rest) = Some (- int m, rest)"
proof -
  have r: "rest = [] \<or> \<not> is_digit (hd rest)"
    using value_end_after [OF assms] by simp
  have t: "takeWhile is_digit (dec_digits m @ rest) = dec_digits m"
    by (rule takeWhile_digit_list [OF dec_digits_digits r])
  have d: "dropWhile is_digit (dec_digits m @ rest) = rest"
    by (rule dropWhile_digit_list [OF dec_digits_digits r])
  show "parse_exponent (0x65 # 0x2B # dec_digits m @ rest) = Some (int m, rest)"
    by (simp add: parse_exponent_def Let_def t d dec_digits_not_empty digits_value_dec_digits)
  show "parse_exponent (0x65 # 0x2D # dec_digits m @ rest) = Some (- int m, rest)"
    by (simp add: parse_exponent_def Let_def t d dec_digits_not_empty digits_value_dec_digits)
qed

lemma parse_exponent_signed:
  assumes "value_end rest"
  shows "parse_exponent (0x65 # (if 0 \<le> e then 0x2B else 0x2D) # dec_digits (nat \<bar>e\<bar>) @ rest)
           = Some (e, rest)"
proof (cases "0 \<le> e")
  case True
  then have "int (nat \<bar>e\<bar>) = e" by simp
  with True parse_exponent_digits(1) [OF assms, of "nat \<bar>e\<bar>"] show ?thesis
    by (simp only: if_True)
next
  case False
  then have "- int (nat \<bar>e\<bar>) = e" by simp
  with False parse_exponent_digits(2) [OF assms, of "nat \<bar>e\<bar>"] show ?thesis
    by (simp only: if_False)
qed

lemma parse_number_literal:
  assumes ds: "list_all is_digit ds" "ds \<noteq> []" "hd ds = 0x30 \<longrightarrow> tl ds = []"
    and after: "after = [] \<or> \<not> is_digit (hd after)"
    and f: "parse_fraction after = Some (fs, after_fraction)"
    and e: "parse_exponent after_fraction = Some (e, rest)"
  shows "parse_number (ds @ after) =
           Inr (JNum (to_number False
                        (of_nat (digits_value (ds @ fs)) * 10 powi (e - int (length fs)))), rest)"
    and "parse_number (0x2D # ds @ after) =
           Inr (JNum (to_number True
                        (of_nat (digits_value (ds @ fs)) * 10 powi (e - int (length fs)))), rest)"
proof -
  have t: "takeWhile is_digit (ds @ after) = ds"
    by (rule takeWhile_digit_list [OF ds(1) after])
  have d: "dropWhile is_digit (ds @ after) = after"
    by (rule dropWhile_digit_list [OF ds(1) after])
  from ds(1,2) have "is_digit (hd ds)" by (cases ds) simp_all
  then have h: "hd (ds @ after) \<noteq> 0x2D"
    using ds(2) by (auto simp add: is_digit_def)
  show "parse_number (ds @ after) =
           Inr (JNum (to_number False
                        (of_nat (digits_value (ds @ fs)) * 10 powi (e - int (length fs)))), rest)"
    using h ds(2,3) by (simp add: parse_number_def Let_def t d f e)
  show "parse_number (0x2D # ds @ after) =
           Inr (JNum (to_number True
                        (of_nat (digits_value (ds @ fs)) * 10 powi (e - int (length fs)))), rest)"
    using ds(2,3) by (simp add: parse_number_def Let_def t d f e)
qed

lemma parse_number_decimal:
  assumes "list_all is_digit ds" "ds \<noteq> []" "hd ds = 0x30 \<longrightarrow> tl ds = []"
    and "after = [] \<or> \<not> is_digit (hd after)"
    and "parse_fraction after = Some (fs, after_fraction)"
    and "parse_exponent after_fraction = Some (e, rest)"
    and val: "of_nat (digits_value (ds @ fs)) * 10 powi (e - int (length fs)) = q"
    and eq: "text_of_number = ds @ after"
  shows "parse_number text_of_number = Inr (JNum (to_number False q), rest) \<and>
         parse_number (0x2D # text_of_number) = Inr (JNum (to_number True q), rest)"
  unfolding val [symmetric] eq
  using parse_number_literal [OF assms(1-6)] by simp

lemma parse_layout:
  assumes s: "0 < s" and rest: "value_end rest"
  shows "parse_number (number_layout (dec_digits s) n @ rest) =
           Inr (JNum (to_number False (of_nat s * 10 powi (n - int (length (dec_digits s))))), rest) \<and>
         parse_number (0x2D # number_layout (dec_digits s) n @ rest) =
           Inr (JNum (to_number True (of_nat s * 10 powi (n - int (length (dec_digits s))))), rest)"
proof -
  define ds where "ds = dec_digits s"
  define k where "k = length ds"
  have D: "list_all is_digit ds" unfolding ds_def by (rule dec_digits_digits)
  have NE: "ds \<noteq> []" unfolding ds_def by (rule dec_digits_not_empty)
  have H: "hd ds \<noteq> 0x30" unfolding ds_def using s by (rule hd_dec_digits)
  have V: "digits_value ds = s" unfolding ds_def by (rule digits_value_dec_digits)
  have kpos: "0 < k" unfolding k_def using NE by simp
  note R = value_end_after [OF rest]
  have r1: "rest = [] \<or> \<not> is_digit (hd rest)" using R by simp
  have r2: "parse_fraction rest = Some ([], rest)" using R by simp
  have r3: "parse_exponent rest = Some (0, rest)" using R by simp
  have goal: "parse_number (number_layout ds n @ rest) =
           Inr (JNum (to_number False (of_nat s * 10 powi (n - int k))), rest) \<and>
         parse_number (0x2D # number_layout ds n @ rest) =
           Inr (JNum (to_number True (of_nat s * 10 powi (n - int k))), rest)"
  proof (cases "int k \<le> n \<and> n \<le> 21")
    case True
    define m where "m = nat (n - int k)"
    from True have nk: "n - int k = int m" by (simp add: m_def)
    have eq: "number_layout ds n @ rest = (ds @ replicate m 0x30) @ rest"
      using True by (simp add: number_layout_def Let_def k_def [symmetric] m_def)
    have d1: "list_all is_digit (ds @ replicate m 0x30)"
      using D zeros_digits [of m] by simp
    have d2: "ds @ replicate m 0x30 \<noteq> []" using NE by simp
    have d3: "hd (ds @ replicate m 0x30) = 0x30 \<longrightarrow> tl (ds @ replicate m 0x30) = []"
      using NE H by simp
    have val: "of_nat (digits_value ((ds @ replicate m 0x30) @ [])) * 10 powi (0 - int (length ([] :: jsstring)))
        = (of_nat s :: rat) * 10 powi (n - int k)"
      unfolding nk by (simp add: digits_value_append digits_value_zeros V)
    show ?thesis
      by (rule parse_number_decimal [OF d1 d2 d3 r1 r2 r3 val eq])
  next
    case c1: False
    show ?thesis
    proof (cases "0 < n \<and> n \<le> 21")
      case True
      define j where "j = nat n"
      from True c1 have j: "0 < j" "j < k" "n = int j" by (auto simp add: j_def)
      have eq: "number_layout ds n @ rest = take j ds @ (0x2E # drop j ds @ rest)"
        using True c1 by (simp add: number_layout_def Let_def k_def [symmetric] j_def)
      have d1: "list_all is_digit (take j ds)"
        using D by (auto simp add: list_all_iff dest: in_set_takeD)
      have d2: "take j ds \<noteq> []" using NE j(1) by simp
      have d3: "hd (take j ds) = 0x30 \<longrightarrow> tl (take j ds) = []"
        using H j(1) by (simp add: hd_take)
      have a: "0x2E # drop j ds @ rest = [] \<or> \<not> is_digit (hd (0x2E # drop j ds @ rest))"
        by (simp add: is_digit_def)
      have f1: "list_all is_digit (drop j ds)"
        using D by (auto simp add: list_all_iff dest: in_set_dropD)
      have f2: "drop j ds \<noteq> []" using j(2) by (simp add: k_def)
      have f: "parse_fraction (0x2E # drop j ds @ rest) = Some (drop j ds, rest)"
        by (rule parse_fraction_digits [OF f1 f2 r1])
      have len: "int (length (drop j ds)) = int k - int j"
        using j(2) by (simp add: k_def)
      have val: "of_nat (digits_value (take j ds @ drop j ds)) * 10 powi (0 - int (length (drop j ds)))
        = (of_nat s :: rat) * 10 powi (n - int k)"
        unfolding len j(3) by (simp add: V)
      show ?thesis
        by (rule parse_number_decimal [OF d1 d2 d3 a f r3 val eq])
    next
      case c2: False
      show ?thesis
      proof (cases "- 6 < n \<and> n \<le> 0")
        case True
        define m where "m = nat (- n)"
        from True have nm: "n = - int m" by (simp add: m_def)
        have eq: "number_layout ds n @ rest = [0x30] @ (0x2E # (replicate m 0x30 @ ds) @ rest)"
          using True c1 c2 by (simp add: number_layout_def Let_def k_def [symmetric] m_def)
        have d1: "list_all is_digit [0x30 :: 16 word]" by (simp add: is_digit_def)
        have a: "0x2E # (replicate m 0x30 @ ds) @ rest = [] \<or>
                 \<not> is_digit (hd (0x2E # (replicate m 0x30 @ ds) @ rest))"
          by (simp add: is_digit_def)
        have f1: "list_all is_digit (replicate m 0x30 @ ds)"
          using D zeros_digits [of m] by simp
        have f2: "replicate m 0x30 @ ds \<noteq> []" using NE by simp
        have f: "parse_fraction (0x2E # (replicate m 0x30 @ ds) @ rest) = Some (replicate m 0x30 @ ds, rest)"
          by (rule parse_fraction_digits [OF f1 f2 r1])
        have z: "digits_value ([0x30] @ replicate m 0x30 @ ds) = s"
        proof -
          have "[0x30] @ replicate m 0x30 @ ds = replicate (Suc m) (0x30 :: 16 word) @ ds" by simp
          then show ?thesis
            by (simp only: digits_value_append [of "replicate (Suc m) 0x30" ds] digits_value_zeros V)
        qed
        have len: "int (length (replicate m (0x30 :: 16 word) @ ds)) = int m + int k"
          by (simp add: k_def)
        have val: "of_nat (digits_value ([0x30] @ replicate m 0x30 @ ds))
              * 10 powi (0 - int (length (replicate m (0x30 :: 16 word) @ ds)))
          = (of_nat s :: rat) * 10 powi (n - int k)"
        proof -
          have "(0::int) - (int m + int k) = - int m - int k" by arith
          then show ?thesis unfolding z len nm by (simp only:)
        qed
        have d2: "[0x30 :: 16 word] \<noteq> []" by simp
        have d3: "hd [0x30 :: 16 word] = 0x30 \<longrightarrow> tl [0x30 :: 16 word] = []" by simp
        show ?thesis
          by (rule parse_number_decimal [OF d1 d2 d3 a f r3 val eq])
      next
        case c3: False
        define e where "e = n - 1"
        define expo where "expo = 0x65 # (if 0 \<le> e then 0x2B else 0x2D) # dec_digits (nat \<bar>e\<bar>)"
        have ex: "parse_exponent (expo @ rest) = Some (e, rest)"
          unfolding expo_def using parse_exponent_signed [OF rest, of e] by simp
        have exh: "expo @ rest = [] \<or> \<not> is_digit (hd (expo @ rest))"
          by (simp add: expo_def is_digit_def)
        show ?thesis
        proof (cases "k = 1")
          case True
          have eq: "number_layout ds n @ rest = ds @ (expo @ rest)"
            using True c1 c2 c3
            by (auto simp add: number_layout_def Let_def k_def [symmetric] expo_def e_def)
          have d3: "hd ds = 0x30 \<longrightarrow> tl ds = []" using H by simp
          have f: "parse_fraction (expo @ rest) = Some ([], expo @ rest)"
            by (simp add: parse_fraction_def expo_def)
          have val: "of_nat (digits_value (ds @ [])) * 10 powi (e - int (length ([] :: jsstring)))
            = (of_nat s :: rat) * 10 powi (n - int k)"
            using True by (simp add: V e_def)
          show ?thesis
            by (rule parse_number_decimal [OF D NE d3 exh f ex val eq])
        next
          case False
          with kpos have k2: "2 \<le> k" by simp
          have eq: "number_layout ds n @ rest = [hd ds] @ (0x2E # tl ds @ (expo @ rest))"
            using False c1 c2 c3
            by (auto simp add: number_layout_def Let_def k_def [symmetric] expo_def e_def)
          have d1: "list_all is_digit [hd ds]" using D NE by (cases ds) simp_all
          have a: "0x2E # tl ds @ (expo @ rest) = [] \<or> \<not> is_digit (hd (0x2E # tl ds @ (expo @ rest)))"
            by (simp add: is_digit_def)
          have f1: "list_all is_digit (tl ds)" using D NE by (cases ds) simp_all
          have f2: "tl ds \<noteq> []" using k2 by (cases ds) (auto simp add: k_def)
          have f: "parse_fraction (0x2E # tl ds @ (expo @ rest)) = Some (tl ds, expo @ rest)"
            by (rule parse_fraction_digits [OF f1 f2 exh])
          have hdtl: "[hd ds] @ tl ds = ds" using NE by simp
          have len: "int (length (tl ds)) = int k - 1" using NE by (cases ds) (simp_all add: k_def)
          have val: "of_nat (digits_value ([hd ds] @ tl ds)) * 10 powi (e - int (length (tl ds)))
            = (of_nat s :: rat) * 10 powi (n - int k)"
            unfolding hdtl len by (simp add: V e_def)
          have d2: "[hd ds] \<noteq> []" by simp
          have d3: "hd [hd ds] = 0x30 \<longrightarrow> tl [hd ds] = []" by simp
          show ?thesis
            by (rule parse_number_decimal [OF d1 d2 d3 a f ex val eq])
        qed
      qed
    qed
  qed
  then show ?thesis
    unfolding k_def ds_def .
qed

lemma is_double_minus: "is_double (- q) = is_double q"
  by (simp add: is_double_def)

lemma to_number_rounds:
  "nearest_double v = Some q \<Longrightarrow> to_number False v = Finite q"
  "nearest_double v = Some q \<Longrightarrow> q \<noteq> 0 \<Longrightarrow> to_number True v = Finite (- q)"
  by (simp_all add: to_number_def)

lemma parse_positive_toString:
  assumes "is_double q" "0 < q" "value_end rest"
  shows "parse_number (positive_toString q @ rest) = Inr (JNum (Finite q), rest)"
    and "parse_number (0x2D # positive_toString q @ rest) = Inr (JNum (Finite (- q)), rest)"
proof -
  obtain s n where d: "double_digits q = (s, n)"
    by (cases "double_digits q")
  from double_digits_rounds [OF assms(1,2) d]
  have s: "0 < s"
    and r: "nearest_double (of_nat s * 10 powi (n - int (length (dec_digits s)))) = Some q"
    by simp_all
  have p: "positive_toString q = number_layout (dec_digits s) n"
    by (simp add: positive_toString_def d)
  from assms(2) have nz: "q \<noteq> 0" by simp
  show "parse_number (positive_toString q @ rest) = Inr (JNum (Finite q), rest)"
    unfolding p using parse_layout [OF s assms(3), of n]
    by (simp only: to_number_rounds(1) [OF r])
  show "parse_number (0x2D # positive_toString q @ rest) = Inr (JNum (Finite (- q)), rest)"
    unfolding p using parse_layout [OF s assms(3), of n]
    by (simp only: to_number_rounds(2) [OF r nz])
qed

lemma parse_zero:
  assumes "value_end rest"
  shows "parse_number (ascii ''0'' @ rest) = Inr (JNum (Finite 0), rest)"
proof -
  note R = value_end_after [OF assms]
  have r1: "rest = [] \<or> \<not> is_digit (hd rest)" using R by simp
  have r2: "parse_fraction rest = Some ([], rest)" using R by simp
  have r3: "parse_exponent rest = Some (0, rest)" using R by simp
  have d1: "list_all is_digit [0x30 :: 16 word]" by (simp add: is_digit_def)
  have d2: "[0x30 :: 16 word] \<noteq> []" by simp
  have d3: "hd [0x30 :: 16 word] = 0x30 \<longrightarrow> tl [0x30 :: 16 word] = []" by simp
  have val: "of_nat (digits_value ([0x30] @ [])) * 10 powi (0 - int (length ([] :: jsstring))) = (0 :: rat)"
    by (simp add: digits_value_def)
  have eq: "ascii ''0'' @ rest = [0x30] @ rest" by (simp add: ascii_def)
  from parse_number_decimal [OF d1 d2 d3 r1 r2 r3 val eq] show ?thesis
    by (simp add: to_number_def nearest_double_zero)
qed

lemma parse_Number_toString:
  assumes "value_end rest" and "json_number x"
  shows "parse_number (Number_toString x @ rest) = Inr (JNum x, rest)"
proof -
  from assms(2) obtain q where x: "x = Finite q" and d: "is_double q"
    by (cases x) simp_all
  show ?thesis
  proof (cases "q = 0")
    case True
    with x show ?thesis using parse_zero [OF assms(1)] by simp
  next
    case False
    show ?thesis
    proof (cases "q < 0")
      case True
      then have pos: "0 < - q" by simp
      from d have d': "is_double (- q)" by (simp add: is_double_minus)
      from parse_positive_toString(2) [OF d' pos assms(1)] True False x show ?thesis
        by simp
    next
      case nonneg: False
      with False have pos: "0 < q" by simp
      from parse_positive_toString(1) [OF d pos assms(1)] nonneg False x show ?thesis
        by simp
    qed
  qed
qed

lemma number_layout_first:
  assumes "ds \<noteq> []" "list_all is_digit ds"
  shows "\<exists>c cs. number_layout ds n = c # cs \<and> is_digit c"
proof -
  from assms obtain d ds' where ds: "ds = d # ds'" and d: "is_digit d"
    by (cases ds) simp_all
  have z: "is_digit 0x30" by (simp add: is_digit_def)
  have t: "0 < n \<Longrightarrow> take (nat n) (d # ds') = d # take (nat n - 1) ds'"
    by (cases "nat n") simp_all
  show ?thesis
    unfolding number_layout_def Let_def ds using d z t by auto
qed

lemma positive_toString_first: "\<exists>c cs. positive_toString q = c # cs \<and> is_digit c"
proof -
  obtain s n where d: "double_digits q = (s, n)"
    by (cases "double_digits q")
  show ?thesis
    using number_layout_first [OF dec_digits_not_empty dec_digits_digits, of s n]
    by (simp add: positive_toString_def d)
qed

lemma Number_toString_first:
  "is_finite x \<Longrightarrow> \<exists>c cs. Number_toString x = c # cs \<and> (c = 0x2D \<or> is_digit c)"
proof (cases x)
  case (Finite q)
  then show ?thesis
    using positive_toString_first [of q] positive_toString_first [of "- q"]
    by (auto simp add: ascii_def is_digit_def)
qed (simp_all add: is_finite_def ascii_def is_digit_def)

lemma skip_ws_no_space: "\<not> is_json_whitespace c \<Longrightarrow> skip_ws (c # cs) = c # cs"
  by (simp add: skip_ws_def)

lemma property_order_prefix: "property_order (xs @ ys) \<Longrightarrow> property_order xs"
  by (induction xs) simp_all

lemma define_property_end:
  "property_order (map fst ps @ [k]) \<Longrightarrow> define_property k v ps = ps @ [(k, v)]"
  by (induction ps) auto

lemma parse_null: "parse_value (Suc n) (ascii ''null'' @ rest) = Inr (JNull, rest)"
  by (simp add: skip_ws_def is_json_whitespace_def ascii_def)

lemma parse_true: "parse_value (Suc n) (ascii ''true'' @ rest) = Inr (JBool True, rest)"
  by (simp add: skip_ws_def is_json_whitespace_def ascii_def)

lemma parse_false: "parse_value (Suc n) (ascii ''false'' @ rest) = Inr (JBool False, rest)"
  by (simp add: skip_ws_def is_json_whitespace_def ascii_def)

lemma parse_string:
  "parse_value (Suc n) (QuoteJSONString s @ rest) = Inr (JStr s, rest)"
  by (simp add: QuoteJSONString_def skip_ws_def is_json_whitespace_def parse_quote_body)

lemma number_char_dispatch:
  "c = 0x2D \<or> is_digit c \<Longrightarrow>
     \<not> is_json_whitespace c \<and> c \<noteq> 0x5B \<and> c \<noteq> 0x7B \<and> c \<noteq> 0x22 \<and> c \<noteq> 0x6E \<and> c \<noteq> 0x74 \<and>
     c \<noteq> 0x66 \<and> c \<noteq> 0x5D \<and> c \<noteq> 0x7D"
  by (auto simp add: is_digit_def is_json_whitespace_def)

lemma json_number_finite: "json_number x \<Longrightarrow> is_finite x"
  by (cases x) (simp_all add: is_finite_def)

lemma parse_number_value:
  assumes "value_end rest" and "json_number i"
  shows "parse_value (Suc n) (Number_toString i @ rest) = Inr (JNum i, rest)"
proof -
  obtain c cs where eq: "Number_toString i = c # cs" and c: "c = 0x2D \<or> is_digit c"
    using Number_toString_first [OF json_number_finite [OF assms(2)]] by blast
  have "parse_number (c # cs @ rest) = Inr (JNum i, rest)"
    using parse_Number_toString [OF assms] eq by simp
  then show ?thesis
    using number_char_dispatch [OF c] by (simp add: eq skip_ws_no_space)
qed

lemma parse_empty_array: "parse_value (Suc n) (0x5B # 0x5D # rest) = Inr (JArr [], rest)"
  by (simp add: skip_ws_def is_json_whitespace_def)

lemma parse_empty_object: "parse_value (Suc n) (0x7B # 0x7D # rest) = Inr (JObj [], rest)"
  by (simp add: skip_ws_def is_json_whitespace_def)

lemma parse_array:
  "parse_elements n (d # ds) = Inr (vs, rest) \<Longrightarrow> \<not> is_json_whitespace d \<Longrightarrow> d \<noteq> 0x5D \<Longrightarrow>
     parse_value (Suc n) (0x5B # d # ds) = Inr (JArr vs, rest)"
  by (simp add: skip_ws_def is_json_whitespace_def)

lemma parse_object:
  "parse_members n [] (0x22 # ds) = Inr (kvs, rest) \<Longrightarrow>
     parse_value (Suc n) (0x7B # 0x22 # ds) = Inr (JObj kvs, rest)"
  by (simp add: skip_ws_def is_json_whitespace_def)

lemma parse_last_element:
  "parse_value n s = Inr (v, 0x5D # rest) \<Longrightarrow> parse_elements (Suc n) s = Inr ([v], rest)"
  by (simp add: skip_ws_def is_json_whitespace_def)

lemma parse_next_element:
  "parse_value n s = Inr (v, 0x2C # others) \<Longrightarrow> parse_elements n others = Inr (vs, rest) \<Longrightarrow>
     parse_elements (Suc n) s = Inr (v # vs, rest)"
  by (simp add: skip_ws_def is_json_whitespace_def)

lemma parse_last_member:
  "parse_value n s = Inr (v, 0x7D # rest) \<Longrightarrow>
     parse_members (Suc n) acc (QuoteJSONString k @ 0x3A # s) = Inr (define_property k v acc, rest)"
  by (simp add: QuoteJSONString_def skip_ws_def is_json_whitespace_def parse_quote_body)

lemma parse_next_member:
  "parse_value n s = Inr (v, 0x2C # others) \<Longrightarrow>
     parse_members (Suc n) acc (QuoteJSONString k @ 0x3A # s) =
       parse_members n (define_property k v acc) others"
  by (simp add: QuoteJSONString_def skip_ws_def is_json_whitespace_def parse_quote_body)

lemma bracket_compact:
  "bracket [] [] opn cls partial =
     (if partial = [] then [opn, cls] else opn # join [0x2C] partial @ [cls])"
  by (simp add: bracket_def)

lemma serialised_first:
  "SerializeJSONProperty [] [] v = Some str \<Longrightarrow>
     \<exists>c cs. str = c # cs \<and> \<not> is_json_whitespace c \<and> c \<noteq> 0x5D \<and> c \<noteq> 0x7D"
proof (cases v)
  case (JNum i)
  assume s: "SerializeJSONProperty [] [] v = Some str"
  show ?thesis
  proof (cases "is_finite i")
    case True
    with s JNum show ?thesis
      using Number_toString_first [OF True] number_char_dispatch by auto
  next
    case False
    with s JNum show ?thesis
      by (auto simp add: ascii_def is_json_whitespace_def)
  qed
qed (auto simp add: ascii_def is_json_whitespace_def QuoteJSONString_def bracket_compact)

lemma join_cons: "ys \<noteq> [] \<Longrightarrow> join sep (x # ys) = x @ sep @ join sep ys"
  by (cases ys) simp_all

lemma json_value_serialised: "json_value v \<Longrightarrow> \<exists>str. SerializeJSONProperty [] [] v = Some str"
  by (cases v) simp_all

lemma elements_not_empty: "xs \<noteq> [] \<Longrightarrow> SerializeJSONArray_elements [] [] xs \<noteq> []"
  by (cases xs) simp_all

lemma members_not_empty:
  "json_members kvs \<Longrightarrow> kvs \<noteq> [] \<Longrightarrow> SerializeJSONObject_members [] [] kvs \<noteq> []"
proof (cases kvs)
  case Nil
  assume "kvs \<noteq> []"
  with Nil show ?thesis by simp
next
  case (Cons p ps)
  assume "json_members kvs"
  with Cons obtain str where "SerializeJSONProperty [] [] (snd p) = Some str"
    using json_value_serialised [of "snd p"] by (cases p) auto
  with Cons show ?thesis by (cases p) simp
qed

lemma join_first: "x = c # cs \<Longrightarrow> \<exists>ds. join sep (x # ys) = c # ds"
  by (cases ys) simp_all

lemma elements_first:
  assumes "json_values xs" "xs \<noteq> []"
  shows "\<exists>d ds. join [0x2C] (SerializeJSONArray_elements [] [] xs) = d # ds \<and>
           \<not> is_json_whitespace d \<and> d \<noteq> 0x5D"
proof -
  from assms obtain y ys where xs: "xs = y # ys" and y: "json_value y"
    by (cases xs) auto
  from y obtain str where str: "SerializeJSONProperty [] [] y = Some str"
    using json_value_serialised by blast
  then obtain c cs where c: "str = c # cs" "\<not> is_json_whitespace c" "c \<noteq> 0x5D"
    using serialised_first by blast
  from c(1) obtain ds where "join [0x2C] (str # SerializeJSONArray_elements [] [] ys) = c # ds"
    using join_first by blast
  with xs str c show ?thesis by simp
qed

lemma members_first:
  assumes "json_members kvs" "kvs \<noteq> []"
  shows "\<exists>ds. join [0x2C] (SerializeJSONObject_members [] [] kvs) = 0x22 # ds"
proof -
  from assms obtain k v ps where kvs: "kvs = (k, v) # ps" and v: "json_value v"
    by (cases kvs) auto
  from v obtain str where str: "SerializeJSONProperty [] [] v = Some str"
    using json_value_serialised by blast
  have "QuoteJSONString k @ 0x3A # str = 0x22 # (quote_body k @ [0x22] @ 0x3A # str)"
    by (simp add: QuoteJSONString_def)
  then obtain ds where
    "join [0x2C] ((QuoteJSONString k @ 0x3A # str) # SerializeJSONObject_members [] [] ps) = 0x22 # ds"
    using join_first by blast
  with kvs str show ?thesis by simp
qed

lemma value_end_simps [simp]:
  "value_end []" "value_end (0x2C # s)" "value_end (0x5D # s)" "value_end (0x7D # s)"
  by (simp_all add: value_end_def)

lemma roundtrip_value:
    "json_value v \<Longrightarrow>
       \<exists>str. SerializeJSONProperty [] [] v = Some str \<and>
         (\<forall>n rest. length str < n \<longrightarrow> value_end rest \<longrightarrow>
            parse_value n (str @ rest) = Inr (v, rest))"
  and roundtrip_elements:
    "json_values vs \<Longrightarrow> vs \<noteq> [] \<Longrightarrow>
       (\<forall>n rest. length (join [0x2C] (SerializeJSONArray_elements [] [] vs)) + 1 < n \<longrightarrow>
          parse_elements n (join [0x2C] (SerializeJSONArray_elements [] [] vs) @ 0x5D # rest)
            = Inr (vs, rest))"
  and roundtrip_members:
    "json_members kvs \<Longrightarrow> kvs \<noteq> [] \<Longrightarrow>
       (\<forall>n acc rest. length (join [0x2C] (SerializeJSONObject_members [] [] kvs)) + 1 < n \<longrightarrow>
          property_order (map fst acc @ map fst kvs) \<longrightarrow>
          parse_members n acc (join [0x2C] (SerializeJSONObject_members [] [] kvs) @ 0x7D # rest)
            = Inr (acc @ kvs, rest))"
proof (induction v and vs and kvs rule: json_value_json_values_json_members.induct)
  case 1
  then show ?case by simp
next
  case 2
  have "parse_value n (ascii ''null'' @ rest) = Inr (JNull, rest)" if "0 < n" for n rest
    using that parse_null [of "n - 1" rest] by simp
  then show ?case by simp
next
  case (3 b)
  have "parse_value n (ascii ''true'' @ rest) = Inr (JBool True, rest)" if "0 < n" for n rest
    using that parse_true [of "n - 1" rest] by simp
  moreover
  have "parse_value n (ascii ''false'' @ rest) = Inr (JBool False, rest)" if "0 < n" for n rest
    using that parse_false [of "n - 1" rest] by simp
  ultimately show ?case by simp
next
  case (4 i)
  then have i: "json_number i" by simp
  have "parse_value n (Number_toString i @ rest) = Inr (JNum i, rest)"
    if "0 < n" "value_end rest" for n rest
    using that i parse_number_value [of rest i "n - 1"] by simp
  then show ?case using json_number_finite [OF i] by simp
next
  case (5 s)
  have "parse_value n (QuoteJSONString s @ rest) = Inr (JStr s, rest)" if "0 < n" for n rest
    using that parse_string [of "n - 1" s rest] by simp
  then show ?case by simp
next
  case (6 xs)
  show ?case
  proof (cases "xs = []")
    case True
    have "parse_value n (0x5B # 0x5D # rest) = Inr (JArr [], rest)" if "0 < n" for n rest
      using that parse_empty_array [of "n - 1" rest] by simp
    with True show ?thesis by (simp add: bracket_compact)
  next
    case False
    from 6(2) have vs: "json_values xs" by simp
    let ?text = "join [0x2C] (SerializeJSONArray_elements [] [] xs)"
    from 6(1) vs False
    have elems: "\<And>n rest. length ?text + 1 < n \<Longrightarrow>
        parse_elements n (?text @ 0x5D # rest) = Inr (xs, rest)"
      by simp
    obtain d ds where first: "?text = d # ds" "\<not> is_json_whitespace d" "d \<noteq> 0x5D"
      using elements_first [OF vs False] by blast
    have ser: "SerializeJSONProperty [] [] (JArr xs) = Some (0x5B # ?text @ [0x5D])"
      using False by (simp add: bracket_compact elements_not_empty)
    have "parse_value n ((0x5B # ?text @ [0x5D]) @ rest) = Inr (JArr xs, rest)"
      if n: "length (0x5B # ?text @ [0x5D]) < n" for n rest
    proof -
      from n obtain m where m: "n = Suc m" "length ?text + 1 < m"
        by (cases n) auto
      from elems [OF m(2), of rest] first(1)
      have "parse_elements m (d # ds @ 0x5D # rest) = Inr (xs, rest)" by simp
      then have "parse_value (Suc m) (0x5B # d # ds @ 0x5D # rest) = Inr (JArr xs, rest)"
        using first(2,3) by (rule parse_array)
      with m(1) first(1) show ?thesis by simp
    qed
    with ser show ?thesis by blast
  qed
next
  case (7 kvs)
  show ?case
  proof (cases "kvs = []")
    case True
    have "parse_value n (0x7B # 0x7D # rest) = Inr (JObj [], rest)" if "0 < n" for n rest
      using that parse_empty_object [of "n - 1" rest] by simp
    with True show ?thesis by (simp add: bracket_compact)
  next
    case False
    from 7(2) have ms: "json_members kvs" and order: "property_order (map fst kvs)" by simp_all
    let ?text = "join [0x2C] (SerializeJSONObject_members [] [] kvs)"
    from 7(1) ms False order
    have membs: "\<And>n rest. length ?text + 1 < n \<Longrightarrow>
        parse_members n [] (?text @ 0x7D # rest) = Inr (kvs, rest)"
      by simp
    obtain ds where first: "?text = 0x22 # ds"
      using members_first [OF ms False] by blast
    have ser: "SerializeJSONProperty [] [] (JObj kvs) = Some (0x7B # ?text @ [0x7D])"
      using False ms by (simp add: bracket_compact members_not_empty)
    have "parse_value n ((0x7B # ?text @ [0x7D]) @ rest) = Inr (JObj kvs, rest)"
      if n: "length (0x7B # ?text @ [0x7D]) < n" for n rest
    proof -
      from n obtain m where m: "n = Suc m" "length ?text + 1 < m"
        by (cases n) auto
      from membs [OF m(2), of rest] first
      have "parse_members m [] (0x22 # ds @ 0x7D # rest) = Inr (kvs, rest)" by simp
      then have "parse_value (Suc m) (0x7B # 0x22 # ds @ 0x7D # rest) = Inr (JObj kvs, rest)"
        by (rule parse_object)
      with m(1) first show ?thesis by simp
    qed
    with ser show ?thesis by blast
  qed
next
  case 8
  then show ?case by simp
next
  case (9 x xs)
  from 9(3) have x: "json_value x" and xs: "json_values xs" by simp_all
  from 9(1) [OF x] obtain str where str: "SerializeJSONProperty [] [] x = Some str"
    and px: "\<And>n rest. length str < n \<Longrightarrow> value_end rest \<Longrightarrow>
               parse_value n (str @ rest) = Inr (x, rest)"
    by blast
  let ?tail = "join [0x2C] (SerializeJSONArray_elements [] [] xs)"
  show ?case
  proof (cases "xs = []")
    case True
    have "parse_elements n (str @ 0x5D # rest) = Inr ([x], rest)" if n: "length str + 1 < n" for n rest
    proof -
      from n obtain m where m: "n = Suc m" "length str < m"
        by (cases n) auto
      have "parse_value m (str @ 0x5D # rest) = Inr (x, 0x5D # rest)"
        using px [OF m(2)] by simp
      then have "parse_elements (Suc m) (str @ 0x5D # rest) = Inr ([x], rest)"
        by (rule parse_last_element)
      with m(1) show ?thesis by simp
    qed
    with True str show ?thesis by simp
  next
    case False
    from 9(2) x xs False
    have pxs: "\<And>n rest. length ?tail + 1 < n \<Longrightarrow>
        parse_elements n (?tail @ 0x5D # rest) = Inr (xs, rest)"
      by simp
    have whole: "join [0x2C] (SerializeJSONArray_elements [] [] (x # xs)) = str @ 0x2C # ?tail"
      using str False by (simp add: join_cons elements_not_empty)
    have "parse_elements n ((str @ 0x2C # ?tail) @ 0x5D # rest) = Inr (x # xs, rest)"
      if n: "length (str @ 0x2C # ?tail) + 1 < n" for n rest
    proof -
      from n obtain m where m: "n = Suc m" "length str < m" "length ?tail + 1 < m"
        by (cases n) auto
      have "parse_value m (str @ 0x2C # ?tail @ 0x5D # rest) = Inr (x, 0x2C # ?tail @ 0x5D # rest)"
        using px [OF m(2)] by simp
      moreover have "parse_elements m (?tail @ 0x5D # rest) = Inr (xs, rest)"
        using pxs [OF m(3)] .
      ultimately have "parse_elements (Suc m) (str @ 0x2C # ?tail @ 0x5D # rest) = Inr (x # xs, rest)"
        by (rule parse_next_element)
      with m(1) show ?thesis by simp
    qed
    with whole show ?thesis by simp
  qed
next
  case 10
  then show ?case by simp
next
  case (11 k v kvs)
  from 11(3) have v: "json_value v" and kvs: "json_members kvs" by simp_all
  from 11(1) [OF v] obtain str where str: "SerializeJSONProperty [] [] v = Some str"
    and pv: "\<And>n rest. length str < n \<Longrightarrow> value_end rest \<Longrightarrow>
               parse_value n (str @ rest) = Inr (v, rest)"
    by blast
  let ?member = "QuoteJSONString k @ 0x3A # str"
  let ?tail = "join [0x2C] (SerializeJSONObject_members [] [] kvs)"
  show ?case
  proof (cases "kvs = []")
    case True
    have "parse_members n acc (?member @ 0x7D # rest) = Inr (acc @ [(k, v)], rest)"
      if n: "length ?member + 1 < n" and order: "property_order (map fst acc @ [k])"
      for n acc rest
    proof -
      from n obtain m where m: "n = Suc m" "length str < m"
        by (cases n) auto
      have "parse_value m (str @ 0x7D # rest) = Inr (v, 0x7D # rest)"
        using pv [OF m(2)] by simp
      then have "parse_members (Suc m) acc (QuoteJSONString k @ 0x3A # str @ 0x7D # rest)
          = Inr (define_property k v acc, rest)"
        by (rule parse_last_member)
      with m(1) order show ?thesis by (simp add: define_property_end)
    qed
    with True str show ?thesis by simp
  next
    case False
    from 11(2) v kvs False
    have pkvs: "\<And>n acc rest. length ?tail + 1 < n \<Longrightarrow>
        property_order (map fst acc @ map fst kvs) \<Longrightarrow>
        parse_members n acc (?tail @ 0x7D # rest) = Inr (acc @ kvs, rest)"
      by simp
    have whole: "join [0x2C] (SerializeJSONObject_members [] [] ((k, v) # kvs)) = ?member @ 0x2C # ?tail"
      using str False kvs by (simp add: join_cons members_not_empty)
    have "parse_members n acc ((?member @ 0x2C # ?tail) @ 0x7D # rest) = Inr (acc @ (k, v) # kvs, rest)"
      if n: "length (?member @ 0x2C # ?tail) + 1 < n"
        and order: "property_order (map fst acc @ k # map fst kvs)"
      for n acc rest
    proof -
      from n obtain m where m: "n = Suc m" "length str < m" "length ?tail + 1 < m"
        by (cases n) auto
      from order have "property_order ((map fst acc @ [k]) @ map fst kvs)" by simp
      then have order1: "property_order (map fst acc @ [k])"
        by (rule property_order_prefix)
      from order have order2: "property_order (map fst (acc @ [(k, v)]) @ map fst kvs)" by simp
      have "parse_value m (str @ 0x2C # ?tail @ 0x7D # rest) = Inr (v, 0x2C # ?tail @ 0x7D # rest)"
        using pv [OF m(2)] by simp
      then have "parse_members (Suc m) acc (QuoteJSONString k @ 0x3A # str @ 0x2C # ?tail @ 0x7D # rest)
          = parse_members m (define_property k v acc) (?tail @ 0x7D # rest)"
        by (rule parse_next_member)
      also have "\<dots> = parse_members m (acc @ [(k, v)]) (?tail @ 0x7D # rest)"
        using order1 by (simp add: define_property_end)
      also have "\<dots> = Inr ((acc @ [(k, v)]) @ kvs, rest)"
        using pkvs [OF m(3) order2] .
      finally show ?thesis using m(1) by simp
    qed
    with whole show ?thesis by simp
  qed
qed

lemma JSON_roundtrip:
  assumes "json_value v"
  shows "\<exists>str. JSON_stringify v = Some str \<and> JSON_parse str = Inr v"
proof -
  from roundtrip_value [OF assms] obtain str where str: "SerializeJSONProperty [] [] v = Some str"
    and p: "\<And>n rest. length str < n \<Longrightarrow> value_end rest \<Longrightarrow> parse_value n (str @ rest) = Inr (v, rest)"
    by blast
  have "parse_value (Suc (length str)) (str @ []) = Inr (v, [])"
    by (rule p) simp_all
  then have "JSON_parse str = Inr v"
    by (simp add: JSON_parse_def skip_ws_def)
  with str show ?thesis by (simp add: JSON_stringify_def)
qed

lemma mount_after_save:
  assumes "json_values h" and "renders (JArr h)"
    and "storage (ascii ''chatHistory'') = JSON_stringify (JArr h)"
  shows "mount storage =
    Inr \<lparr>query = [], chatHistory = h, localStorage = storage, chatHistory_changed = False\<rparr>"
proof -
  from assms(1) have "json_value (JArr h)" by simp
  then obtain str where str: "JSON_stringify (JArr h) = Some str" and p: "JSON_parse str = Inr (JArr h)"
    using JSON_roundtrip by blast
  from str have ne: "str \<noteq> []"
    by (auto simp add: JSON_stringify_def bracket_def split: if_splits)
  have same: "storage(ascii ''chatHistory'' \<mapsto> str) = storage"
    using assms(3) str by (simp add: map_upd_triv)
  have l: "load_effect \<lparr>query = [], chatHistory = [], localStorage = storage, chatHistory_changed = False\<rparr>
      = Inr (Some (JArr h))"
    using assms(3) str p ne by (simp add: load_effect_def)
  show ?thesis
    unfolding mount_def Let_def l
    using assms(2) str same
    by (simp add: setChatHistory_def commit_def save_effect_def localStorage_setItem_def ToString_def)
qed

subsection \<open>The transcript across a session\<close>

lemma mount_state:
  assumes "mount storage = Inr s"
  shows "renders (JArr (chatHistory s)) \<and> persisted s \<and> \<not> chatHistory_changed s \<and> query s = []"
proof -
  let ?first = "\<lparr>query = [], chatHistory = [], localStorage = storage, chatHistory_changed = False\<rparr>"
  show ?thesis
  proof (cases "load_effect ?first")
    case (Inl e)
    with assms show ?thesis by (simp add: mount_def Let_def)
  next
    case (Inr loaded)
    show ?thesis
    proof (cases loaded)
      case None
      with Inr assms show ?thesis
        by (auto simp add: mount_def Let_def save_effect_def localStorage_setItem_def persisted_def
            stored_serialisation)
    next
      case (Some v)
      with Inr assms obtain h where v: "v = JArr h" and r: "renders (JArr h)"
        by (cases v) (auto simp add: mount_def Let_def split: if_splits)
      with Some Inr assms show ?thesis
        by (auto simp add: mount_def Let_def setChatHistory_def commit_def save_effect_def
            localStorage_setItem_def persisted_def stored_serialisation)
    qed
  qed
qed

lemma mount_loads:
  assumes "mount storage = Inr s"
  shows "chatHistory s = [] \<or>
         (\<exists>stored. storage (ascii ''chatHistory'') = Some stored \<and>
            JSON_parse stored = Inr (JArr (chatHistory s)))"
proof -
  let ?first = "\<lparr>query = [], chatHistory = [], localStorage = storage, chatHistory_changed = False\<rparr>"
  show ?thesis
  proof (cases "load_effect ?first")
    case (Inl e)
    with assms show ?thesis by (simp add: mount_def Let_def)
  next
    case (Inr loaded)
    show ?thesis
    proof (cases loaded)
      case None
      with Inr assms show ?thesis
        by (auto simp add: mount_def Let_def save_effect_def localStorage_setItem_def)
    next
      case (Some v)
      with Inr assms obtain h where v: "v = JArr h" and r: "renders (JArr h)"
        by (cases v) (auto simp add: mount_def Let_def split: if_splits)
      from Inr Some v obtain stored where st: "storage (ascii ''chatHistory'') = Some stored"
        and p: "JSON_parse stored = Inr (JArr h)"
        by (auto simp add: load_effect_def split: option.splits if_splits sum.splits)
      from Some Inr assms v r have "chatHistory s = h"
        by (auto simp add: mount_def Let_def setChatHistory_def commit_def save_effect_def
            localStorage_setItem_def)
      with st p show ?thesis by simp
    qed
  qed
qed

lemma renders_append:
  "renders (JArr (xs @ ys)) \<longleftrightarrow> renders (JArr xs) \<and> renders (JArr ys)"
  by simp










lemma persisted_step:
  "persisted (app p) \<or> chatHistory (app (chatbot_step e p)) \<noteq> chatHistory (app p)
   \<Longrightarrow> persisted (app (chatbot_step e p))"
proof (cases e)
  case (Type_query q)
  assume "persisted (app p) \<or> chatHistory (app (chatbot_step e p)) \<noteq> chatHistory (app p)"
  with Type_query show ?thesis
    by (auto simp add: persisted_def commit_def save_effect_def localStorage_setItem_def
        setQuery_def stored_serialisation)
next
  case Submit
  assume "persisted (app p) \<or> chatHistory (app (chatbot_step e p)) \<noteq> chatHistory (app p)"
  with Submit show ?thesis
    by (cases "trim (query (app p)) = []")
       (auto simp add: handleSubmit_blank handleSubmit_nonblank persisted_def commit_def
          save_effect_def localStorage_setItem_def stored_serialisation)
next
  case Click_clear
  then show ?thesis
    by (simp add: persisted_def handleClear_def setChatHistory_def localStorage_removeItem_def
        commit_def save_effect_def localStorage_setItem_def stored_serialisation)
next
  case (Settle i r)
  assume h: "persisted (app p) \<or> chatHistory (app (chatbot_step e p)) \<noteq> chatHistory (app p)"
  obtain t where t: "handleSubmit_resume r (app p) =
      (app p)\<lparr>chatHistory := chatHistory (app p) @ [JObj [(ascii ''sender'', JStr (ascii ''bot'')),
                                               (ascii ''text'', t)]],
           chatHistory_changed := True\<rparr>"
    using handleSubmit_resume_appends by blast
  show ?thesis
  proof (cases "i < length (outstanding p)")
    case True
    with Settle t show ?thesis
      by (simp add: persisted_def commit_def save_effect_def localStorage_setItem_def
          stored_serialisation)
  next
    case False
    with Settle h show ?thesis by simp
  qed
qed


lemma chatbot_run_persisted:
  "persisted (app p) \<Longrightarrow> persisted (app (chatbot_run es p))"
  by (induction es arbitrary: p) (simp_all add: persisted_step)

subsection \<open>The claims\<close>

text \<open>
  C1, as the code has it. Query page: every event but the Clear button leaves the
  messages of the transcript in place and in order and adds only at the end; the Clear
  button empties the transcript. Other page: an event after which the page is still
  there either leaves the messages in place and adds only at the end, or is the
  completion of a start-chat call, and then the transcript is the one bot message with
  the \<open>insight\<close> of the response, whatever it held before. The page is removed by a
  follow-up call that completes with the body \<open>null\<close>, and by nothing else.
\<close>

theorem transcript_append_only_except_start_chat:
  "(e \<noteq> Click_clear \<longrightarrow>
      (\<exists>added. chatHistory (app (chatbot_step e p)) = chatHistory (app p) @ added)) \<and>
   chatHistory (app (chatbot_step Click_clear p)) = [] \<and>
   (insights_step f (Page s a) = Page s' a' \<longrightarrow>
      (\<exists>added. chat s' = chat s @ added) \<or>
      (\<exists>i data insight.
         f = Settled i (Fulfilled data) \<and> i < length a \<and> a ! i = Await_start_chat \<and>
         get_prop data (ascii ''insight'') = Inr insight \<and>
         chat s' = [JObj [(ascii ''role'', JStr (ascii ''bot'')), (ascii ''text'', insight)]])) \<and>
   (j < length w \<and> w ! j = Await_start_chat \<and> get_prop body (ascii ''insight'') = Inr shown \<longrightarrow>
      insights_step (Settled j (Fulfilled body)) (Page b w) =
        Page (b\<lparr>chat := [JObj [(ascii ''role'', JStr (ascii ''bot'')), (ascii ''text'', shown)]],
                loading := False\<rparr>) (drop_nth j w)) \<and>
   (insights_step g (Page c u) = Removed \<longrightarrow>
      (\<exists>i asked data.
         g = Settled i (Fulfilled data) \<and> i < length u \<and> u ! i = Await_follow_up asked \<and>
         (data = JNull \<or> data = JUndefined))) \<and>
   (k < length z \<and> z ! k = Await_follow_up question \<longrightarrow>
      insights_step (Settled k (Fulfilled JNull)) (Page d z) = Removed)"
proof -
  have null: "insights_step (Settled k (Fulfilled JNull)) (Page d z) = Removed"
    if "k < length z \<and> z ! k = Await_follow_up question"
    using that by (simp add: handleFollowUp_resume_def)
  have clear: "chatHistory (app (chatbot_step Click_clear p)) = []"
    by (simp add: handleClear_def setChatHistory_def localStorage_removeItem_def)
  show ?thesis
    using chatbot_append_only [of e p] clear insights_step_transcript [of f s a s' a']
      start_chat_replaces [of j w body shown b] insights_step_removed [of g c u] null
    by blast
qed

theorem transcript_append_only_except_start_chat_witness:
  "(\<exists>added. chatHistory (app (chatbot_step Submit
       \<lparr>app = \<lparr>query = ascii ''hi'',
                chatHistory = [JObj [(ascii ''sender'', JStr (ascii ''bot'')), (ascii ''text'', JStr (ascii ''old''))]],
                localStorage = Map.empty, chatHistory_changed = False\<rparr>,
        outstanding = []\<rparr>))
      = [JObj [(ascii ''sender'', JStr (ascii ''bot'')), (ascii ''text'', JStr (ascii ''old''))]] @ added) \<and>
   insights_step (Settled 0 (Fulfilled (JObj [(ascii ''reply'', JStr (ascii ''because''))])))
       (Page \<lparr>company = ascii ''acme'',
               chat = [JObj [(ascii ''role'', JStr (ascii ''bot'')), (ascii ''text'', JStr (ascii ''old''))]],
               loading = True, followUp = ascii ''why''\<rparr>
             [Await_follow_up (ascii ''why'')])
     = Page \<lparr>company = ascii ''acme'',
              chat = [JObj [(ascii ''role'', JStr (ascii ''bot'')), (ascii ''text'', JStr (ascii ''old''))],
                      JObj [(ascii ''role'', JStr (ascii ''user'')), (ascii ''text'', JStr (ascii ''why''))],
                      JObj [(ascii ''role'', JStr (ascii ''bot'')), (ascii ''text'', JStr (ascii ''because''))]],
              loading = False, followUp = []\<rparr> [] \<and>
   (\<exists>added.
      [JObj [(ascii ''role'', JStr (ascii ''bot'')), (ascii ''text'', JStr (ascii ''old''))],
       JObj [(ascii ''role'', JStr (ascii ''user'')), (ascii ''text'', JStr (ascii ''why''))],
       JObj [(ascii ''role'', JStr (ascii ''bot'')), (ascii ''text'', JStr (ascii ''because''))]]
      = [JObj [(ascii ''role'', JStr (ascii ''bot'')), (ascii ''text'', JStr (ascii ''old''))]] @ added) \<and>
   insights_step (Settled 0 (Fulfilled (JObj [(ascii ''insight'', JStr (ascii ''new''))])))
       (Page \<lparr>company = ascii ''acme'',
               chat = [JObj [(ascii ''role'', JStr (ascii ''bot'')), (ascii ''text'', JStr (ascii ''old''))]],
               loading = True, followUp = []\<rparr>
             [Await_start_chat])
     = Page \<lparr>company = ascii ''acme'',
              chat = [JObj [(ascii ''role'', JStr (ascii ''bot'')), (ascii ''text'', JStr (ascii ''new''))]],
              loading = False, followUp = []\<rparr> [] \<and>
   insights_step (Settled 0 (Fulfilled JNull))
       (Page \<lparr>company = ascii ''acme'',
               chat = [JObj [(ascii ''role'', JStr (ascii ''bot'')), (ascii ''text'', JStr (ascii ''old''))]],
               loading = True, followUp = ascii ''why''\<rparr>
             [Await_follow_up (ascii ''why'')])
     = Removed"
proof -
  let ?old = "JObj [(ascii ''role'', JStr (ascii ''bot'')), (ascii ''text'', JStr (ascii ''old''))]"
  let ?asking = "\<lparr>company = ascii ''acme'', chat = [?old], loading = True, followUp = ascii ''why''\<rparr>"
  let ?starting = "\<lparr>company = ascii ''acme'', chat = [?old], loading = True, followUp = []\<rparr>"
  let ?answered = "\<lparr>company = ascii ''acme'',
              chat = [?old,
                      JObj [(ascii ''role'', JStr (ascii ''user'')), (ascii ''text'', JStr (ascii ''why''))],
                      JObj [(ascii ''role'', JStr (ascii ''bot'')), (ascii ''text'', JStr (ascii ''because''))]],
              loading = False, followUp = []\<rparr>"
  have follow: "insights_step (Settled 0 (Fulfilled (JObj [(ascii ''reply'', JStr (ascii ''because''))])))
       (Page ?asking [Await_follow_up (ascii ''why'')]) = Page ?answered []"
    by (simp add: handleFollowUp_resume_def drop_nth_def)
  have insight: "get_prop (JObj [(ascii ''insight'', JStr (ascii ''new''))]) (ascii ''insight'')
      = Inr (JStr (ascii ''new''))"
    by simp
  note all = transcript_append_only_except_start_chat
    [where e = Submit
       and p = "\<lparr>app = \<lparr>query = ascii ''hi'',
                chatHistory = [JObj [(ascii ''sender'', JStr (ascii ''bot'')), (ascii ''text'', JStr (ascii ''old''))]],
                localStorage = Map.empty, chatHistory_changed = False\<rparr>,
        outstanding = []\<rparr>"
       and f = "Settled 0 (Fulfilled (JObj [(ascii ''reply'', JStr (ascii ''because''))]))"
       and s = ?asking and a = "[Await_follow_up (ascii ''why'')]" and s' = ?answered and a' = "[]"
       and j = 0 and w = "[Await_start_chat]"
       and body = "JObj [(ascii ''insight'', JStr (ascii ''new''))]"
       and shown = "JStr (ascii ''new'')" and b = ?starting
       and g = "Settled 0 (Fulfilled JNull)" and c = ?asking
       and u = "[Await_follow_up (ascii ''why'')]"
       and k = 0 and z = "[Await_follow_up (ascii ''why'')]" and question = "ascii ''why''"
       and d = ?asking]
  from all have gone: "insights_step (Settled 0 (Fulfilled JNull))
      (Page ?asking [Await_follow_up (ascii ''why'')]) = Removed"
    by simp
  from all have one: "\<exists>added. chatHistory (app (chatbot_step Submit
       \<lparr>app = \<lparr>query = ascii ''hi'',
                chatHistory = [JObj [(ascii ''sender'', JStr (ascii ''bot'')), (ascii ''text'', JStr (ascii ''old''))]],
                localStorage = Map.empty, chatHistory_changed = False\<rparr>,
        outstanding = []\<rparr>))
      = [JObj [(ascii ''sender'', JStr (ascii ''bot'')), (ascii ''text'', JStr (ascii ''old''))]] @ added"
    by simp
  from all insight have three: "insights_step (Settled 0 (Fulfilled (JObj [(ascii ''insight'', JStr (ascii ''new''))])))
       (Page ?starting [Await_start_chat])
     = Page \<lparr>company = ascii ''acme'',
              chat = [JObj [(ascii ''role'', JStr (ascii ''bot'')), (ascii ''text'', JStr (ascii ''new''))]],
              loading = False, followUp = []\<rparr> []"
    by (simp add: drop_nth_def)
  from all follow have two: "\<exists>added.
      [?old,
       JObj [(ascii ''role'', JStr (ascii ''user'')), (ascii ''text'', JStr (ascii ''why''))],
       JObj [(ascii ''role'', JStr (ascii ''bot'')), (ascii ''text'', JStr (ascii ''because''))]]
      = [?old] @ added"
    by auto
  from one follow two three gone show ?thesis
    by (intro conjI)
qed

text \<open>
  C1 as stated fails for starting a chat: after a first chat was started and answered,
  starting another one leaves only the new bot message in the transcript.
\<close>

theorem start_chat_discards_transcript_counterexample:
  "insights_run [Type_company (ascii ''acme''), Click_get_insights,
                 Settled 0 (Fulfilled (JObj [(ascii ''insight'', JStr (ascii ''old''))]))]
      insights_initial
   = Page \<lparr>company = ascii ''acme'',
            chat = [JObj [(ascii ''role'', JStr (ascii ''bot'')), (ascii ''text'', JStr (ascii ''old''))]],
            loading = False, followUp = []\<rparr> [] \<and>
   insights_run [Type_company (ascii ''acme''), Click_get_insights,
                 Settled 0 (Fulfilled (JObj [(ascii ''insight'', JStr (ascii ''old''))])),
                 Click_get_insights,
                 Settled 0 (Fulfilled (JObj [(ascii ''insight'', JStr (ascii ''new''))]))]
      insights_initial
   = Page \<lparr>company = ascii ''acme'',
            chat = [JObj [(ascii ''role'', JStr (ascii ''bot'')), (ascii ''text'', JStr (ascii ''new''))]],
            loading = False, followUp = []\<rparr> [] \<and>
   JObj [(ascii ''role'', JStr (ascii ''bot'')), (ascii ''text'', JStr (ascii ''old''))]
     \<notin> set [JObj [(ascii ''role'', JStr (ascii ''bot'')), (ascii ''text'', JStr (ascii ''new''))]]"
  by (simp add: insights_initial_def handleStartChat_def handleStartChat_resume_def drop_nth_def
      trim_def is_js_whitespace_def ascii_def)

text \<open>
  C2, as the code has it. Query page: whenever the request has failed (no response, or a
  status outside 2xx), the \<open>catch\<close> block appends the one fixed bot message; the awaited
  call is dropped and none is issued in its place. Other page: nothing is caught and
  the status is not read. When no response arrives or the body is not JSON, the handler
  rejects and the page keeps the state it had, with no message added. A response with a
  JSON body is handled in one way whatever its status: the follow-up appends the user's
  message and a bot message with the \<open>reply\<close> of the body, the start of a chat leaves
  one bot message with its \<open>insight\<close>; on the body \<open>null\<close>, where neither can be read,
  the start of a chat rejects and the follow-up ends with the page removed.
\<close>

theorem failed_request_fallback_only_in_query_page:
  "(request_failed x \<longrightarrow>
      chatHistory (handleSubmit_resume (axios_post x) s) =
        chatHistory s @ [JObj [(ascii ''sender'', JStr (ascii ''bot'')),
                               (ascii ''text'', JStr (ascii ''Something went wrong.''))]] \<and>
      (i < length (outstanding p) \<longrightarrow>
         chatHistory (app (chatbot_step (Settle i (axios_post x)) p)) =
           chatHistory (app p) @ [JObj [(ascii ''sender'', JStr (ascii ''bot'')),
                                        (ascii ''text'', JStr (ascii ''Something went wrong.''))]] \<and>
         outstanding (chatbot_step (Settle i (axios_post x)) p) = drop_nth i (outstanding p))) \<and>
   (y = No_response \<or> y = Http code (Not_json str) \<longrightarrow>
      (\<exists>err. fetch_json y = Rejected err \<and>
         handleStartChat_resume (fetch_json y) b = Handler_rejected err \<and>
         handleFollowUp_resume asked (fetch_json y) b = Handler_rejected err \<and>
         (j < length a \<longrightarrow>
            insights_step (Settled j (fetch_json y)) (Page b a) = Page b (drop_nth j a)))) \<and>
   (get_prop data (ascii ''reply'') = Inr reply \<longrightarrow>
      handleFollowUp_resume asked (fetch_json (Http status (Json data))) b =
        Rendered (b\<lparr>chat := chat b @ [JObj [(ascii ''role'', JStr (ascii ''user'')),
                                               (ascii ''text'', JStr asked)],
                                         JObj [(ascii ''role'', JStr (ascii ''bot'')),
                                               (ascii ''text'', reply)]],
                     followUp := [], loading := False\<rparr>)) \<and>
   (get_prop data (ascii ''insight'') = Inr insight \<longrightarrow>
      handleStartChat_resume (fetch_json (Http status (Json data))) b =
        Rendered (b\<lparr>chat := [JObj [(ascii ''role'', JStr (ascii ''bot'')),
                                      (ascii ''text'', insight)]],
                     loading := False\<rparr>)) \<and>
   handleStartChat_resume (fetch_json (Http status (Json JNull))) b = Handler_rejected TypeError \<and>
   handleFollowUp_resume asked (fetch_json (Http status (Json JNull))) b = Page_removed TypeError"
proof -
  have A: "chatHistory (handleSubmit_resume (axios_post x) s) =
        chatHistory s @ [JObj [(ascii ''sender'', JStr (ascii ''bot'')),
                               (ascii ''text'', JStr (ascii ''Something went wrong.''))]]"
    if "request_failed x" for s
    using that by (cases x) (simp_all add: handleSubmit_resume_def setChatHistory_def)
  have B: "\<exists>err. fetch_json y = Rejected err \<and>
         handleStartChat_resume (fetch_json y) b = Handler_rejected err \<and>
         handleFollowUp_resume asked (fetch_json y) b = Handler_rejected err \<and>
         (j < length a \<longrightarrow>
            insights_step (Settled j (fetch_json y)) (Page b a) = Page b (drop_nth j a))"
    if "y = No_response \<or> y = Http code (Not_json str)"
    using that
    by (auto simp add: handleStartChat_resume_def handleFollowUp_resume_def split: awaited.splits)
  have C: "handleFollowUp_resume asked (fetch_json (Http status (Json data))) b =
        Rendered (b\<lparr>chat := chat b @ [JObj [(ascii ''role'', JStr (ascii ''user'')),
                                               (ascii ''text'', JStr asked)],
                                         JObj [(ascii ''role'', JStr (ascii ''bot'')),
                                               (ascii ''text'', reply)]],
                     followUp := [], loading := False\<rparr>)"
    if "get_prop data (ascii ''reply'') = Inr reply"
    using that by (simp add: handleFollowUp_resume_def)
  have D: "handleStartChat_resume (fetch_json (Http status (Json data))) b =
        Rendered (b\<lparr>chat := [JObj [(ascii ''role'', JStr (ascii ''bot'')),
                                      (ascii ''text'', insight)]],
                     loading := False\<rparr>)"
    if "get_prop data (ascii ''insight'') = Inr insight"
    using that by (simp add: handleStartChat_resume_def)
  have E: "handleStartChat_resume (fetch_json (Http status (Json JNull))) b = Handler_rejected TypeError"
    "handleFollowUp_resume asked (fetch_json (Http status (Json JNull))) b = Page_removed TypeError"
    by (simp_all add: handleStartChat_resume_def handleFollowUp_resume_def)
  from A B C D E show ?thesis by simp
qed

theorem failed_request_fallback_only_in_query_page_witness:
  "request_failed (Http 500 (Json (JObj [(ascii ''detail'', JStr (ascii ''Internal Server Error''))]))) \<and>
   chatHistory (app (chatbot_step
      (Settle 0 (axios_post (Http 500 (Json (JObj [(ascii ''detail'', JStr (ascii ''Internal Server Error''))])))))
      \<lparr>app = \<lparr>query = [],
               chatHistory = [JObj [(ascii ''sender'', JStr (ascii ''user'')),
                                    (ascii ''text'', JStr (ascii ''hi''))]],
               localStorage = Map.empty, chatHistory_changed = False\<rparr>,
       outstanding = [POST (ascii ''http://localhost:8000/query'')
                           (JObj [(ascii ''query'', JStr (ascii ''hi''))])]\<rparr>))
   = [JObj [(ascii ''sender'', JStr (ascii ''user'')), (ascii ''text'', JStr (ascii ''hi''))],
      JObj [(ascii ''sender'', JStr (ascii ''bot'')),
            (ascii ''text'', JStr (ascii ''Something went wrong.''))]] \<and>
   outstanding (chatbot_step
      (Settle 0 (axios_post (Http 500 (Json (JObj [(ascii ''detail'', JStr (ascii ''Internal Server Error''))])))))
      \<lparr>app = \<lparr>query = [],
               chatHistory = [JObj [(ascii ''sender'', JStr (ascii ''user'')),
                                    (ascii ''text'', JStr (ascii ''hi''))]],
               localStorage = Map.empty, chatHistory_changed = False\<rparr>,
       outstanding = [POST (ascii ''http://localhost:8000/query'')
                           (JObj [(ascii ''query'', JStr (ascii ''hi''))])]\<rparr>) = [] \<and>
   insights_step (Settled 0 (fetch_json (Http 502 (Not_json (ascii ''Bad Gateway'')))))
      (Page \<lparr>company = ascii ''acme'', chat = [], loading = True, followUp = []\<rparr> [Await_start_chat])
   = Page \<lparr>company = ascii ''acme'', chat = [], loading = True, followUp = []\<rparr> [] \<and>
   handleFollowUp_resume (ascii ''why'')
      (fetch_json (Http 500 (Json (JObj [(ascii ''detail'', JStr (ascii ''Internal Server Error''))]))))
      \<lparr>company = ascii ''acme'',
        chat = [JObj [(ascii ''role'', JStr (ascii ''bot'')), (ascii ''text'', JStr (ascii ''old''))]],
        loading = True, followUp = ascii ''why''\<rparr>
   = Rendered \<lparr>company = ascii ''acme'',
        chat = [JObj [(ascii ''role'', JStr (ascii ''bot'')), (ascii ''text'', JStr (ascii ''old''))],
                JObj [(ascii ''role'', JStr (ascii ''user'')), (ascii ''text'', JStr (ascii ''why''))],
                JObj [(ascii ''role'', JStr (ascii ''bot'')), (ascii ''text'', JUndefined)]],
        loading = False, followUp = []\<rparr> \<and>
   handleStartChat_resume
      (fetch_json (Http 500 (Json (JObj [(ascii ''detail'', JStr (ascii ''Internal Server Error''))]))))
      \<lparr>company = ascii ''acme'',
        chat = [JObj [(ascii ''role'', JStr (ascii ''bot'')), (ascii ''text'', JStr (ascii ''old''))]],
        loading = True, followUp = ascii ''why''\<rparr>
   = Rendered \<lparr>company = ascii ''acme'',
        chat = [JObj [(ascii ''role'', JStr (ascii ''bot'')), (ascii ''text'', JUndefined)]],
        loading = False, followUp = ascii ''why''\<rparr>"
proof -
  let ?error = "JObj [(ascii ''detail'', JStr (ascii ''Internal Server Error''))]"
  have f: "request_failed (Http 500 (Json ?error))"
    by (simp add: ok_status_def)
  have r: "get_prop ?error (ascii ''reply'') = Inr JUndefined"
    by (simp add: ascii_def)
  have i: "get_prop ?error (ascii ''insight'') = Inr JUndefined"
    by (simp add: ascii_def)
  note all = failed_request_fallback_only_in_query_page
    [where x = "Http 500 (Json ?error)"
       and i = 0
       and p = "\<lparr>app = \<lparr>query = [],
               chatHistory = [JObj [(ascii ''sender'', JStr (ascii ''user'')),
                                    (ascii ''text'', JStr (ascii ''hi''))]],
               localStorage = Map.empty, chatHistory_changed = False\<rparr>,
       outstanding = [POST (ascii ''http://localhost:8000/query'')
                           (JObj [(ascii ''query'', JStr (ascii ''hi''))])]\<rparr>"
       and y = "Http 502 (Not_json (ascii ''Bad Gateway''))" and code = 502
       and str = "ascii ''Bad Gateway''"
       and j = 0 and a = "[Await_start_chat]"
       and b = "\<lparr>company = ascii ''acme'',
        chat = [JObj [(ascii ''role'', JStr (ascii ''bot'')), (ascii ''text'', JStr (ascii ''old''))]],
        loading = True, followUp = ascii ''why''\<rparr>"
       and data = ?error and reply = JUndefined and insight = JUndefined and status = 500
       and asked = "ascii ''why''"]
  have first: "insights_step (Settled 0 (fetch_json (Http 502 (Not_json (ascii ''Bad Gateway'')))))
      (Page \<lparr>company = ascii ''acme'', chat = [], loading = True, followUp = []\<rparr> [Await_start_chat])
   = Page \<lparr>company = ascii ''acme'', chat = [], loading = True, followUp = []\<rparr> []"
    by (simp add: handleStartChat_resume_def drop_nth_def)
  from all f r i first show ?thesis
    by (simp add: drop_nth_def)
qed

text \<open>
  C2 as stated fails in the page without \<open>try\<close>: a follow-up whose request gets no
  response leaves the transcript as it was, with no message added, and the loading flag
  set.
\<close>

theorem failed_follow_up_adds_nothing_counterexample:
  "request_failed No_response \<and>
   insights_step (Settled 0 (fetch_json No_response))
      (Page \<lparr>company = ascii ''acme'',
              chat = [JObj [(ascii ''role'', JStr (ascii ''bot'')), (ascii ''text'', JStr (ascii ''old''))]],
              loading = True, followUp = ascii ''why''\<rparr>
            [Await_follow_up (ascii ''why'')])
   = Page \<lparr>company = ascii ''acme'',
            chat = [JObj [(ascii ''role'', JStr (ascii ''bot'')), (ascii ''text'', JStr (ascii ''old''))]],
            loading = True, followUp = ascii ''why''\<rparr>
          []"
  by (simp add: handleFollowUp_resume_def drop_nth_def)




text \<open>
  C4: \<open>handleClear\<close> empties the transcript and removes the key, but it calls
  \<open>setChatHistory\<close>, so the save effect runs in the commit that follows and stores the
  serialisation of the empty transcript under the key again.
\<close>

theorem clear_leaves_key_with_empty_array:
  "chatHistory (handleClear s) = [] \<and>
   localStorage (handleClear s) (ascii ''chatHistory'') = None \<and>
   chatHistory (app (chatbot_step Click_clear p)) = [] \<and>
   localStorage (app (chatbot_step Click_clear p)) (ascii ''chatHistory'') = Some (ascii ''[]'')"
  by (simp add: handleClear_def setChatHistory_def localStorage_removeItem_def commit_def
      save_effect_def localStorage_setItem_def JSON_stringify_def ToString_def bracket_def ascii_def)

theorem clear_leaves_key_with_empty_array_witness:
  "localStorage (app (chatbot_step Click_clear
      \<lparr>app = \<lparr>query = [],
               chatHistory = [JObj [(ascii ''sender'', JStr (ascii ''user'')),
                                    (ascii ''text'', JStr (ascii ''hi''))]],
               localStorage = [ascii ''chatHistory'' \<mapsto>
                                 ascii ''[{\"sender\":\"user\",\"text\":\"hi\"}]''],
               chatHistory_changed = False\<rparr>,
       outstanding = []\<rparr>)) (ascii ''chatHistory'')
   = Some (ascii ''[]'')"
  using clear_leaves_key_with_empty_array by blast

text \<open>
  C5: a step of the query page that changes the transcript leaves the serialisation of
  the whole new transcript under the key, and a step taken when the key holds the
  serialisation of the transcript leaves it so; the key holds it after the mount, hence
  after every run of events. The value is always written whole.
\<close>

theorem key_holds_serialised_transcript:
  "(persisted (app p) \<or> chatHistory (app (chatbot_step e p)) \<noteq> chatHistory (app p) \<longrightarrow>
      persisted (app (chatbot_step e p))) \<and>
   (mount storage = Inr mounted \<longrightarrow> persisted (app (chatbot_run es \<lparr>app = mounted, outstanding = []\<rparr>)))"
  using persisted_step [of p e] mount_state [of storage mounted]
    chatbot_run_persisted [of "\<lparr>app = mounted, outstanding = []\<rparr>" es]
  by simp

theorem key_holds_serialised_transcript_witness:
  "localStorage (app (chatbot_step Submit
      \<lparr>app = \<lparr>query = ascii ''hi'', chatHistory = [],
               localStorage = [ascii ''chatHistory'' \<mapsto> ascii ''[]''],
               chatHistory_changed = False\<rparr>,
       outstanding = []\<rparr>)) (ascii ''chatHistory'')
     = Some (ascii ''[{\"sender\":\"user\",\"text\":\"hi\"}]'') \<and>
   persisted (app (chatbot_step Submit
      \<lparr>app = \<lparr>query = ascii ''hi'', chatHistory = [],
               localStorage = [ascii ''chatHistory'' \<mapsto> ascii ''[]''],
               chatHistory_changed = False\<rparr>,
       outstanding = []\<rparr>)) \<and>
   persisted (app (chatbot_run [Type_query (ascii ''hi''), Submit, Click_clear]
      \<lparr>app = \<lparr>query = [], chatHistory = [],
               localStorage = [ascii ''chatHistory'' \<mapsto> ascii ''[]''],
               chatHistory_changed = False\<rparr>,
       outstanding = []\<rparr>))"
proof -
  let ?saved = "\<lparr>query = ascii ''hi'', chatHistory = [],
               localStorage = [ascii ''chatHistory'' \<mapsto> ascii ''[]''],
               chatHistory_changed = False\<rparr>"
  let ?fresh = "\<lparr>query = [], chatHistory = [],
       localStorage = [ascii ''chatHistory'' \<mapsto> ascii ''[]''],
       chatHistory_changed = False\<rparr>"
  note both = key_holds_serialised_transcript
    [where p = "\<lparr>app = ?saved, outstanding = []\<rparr>" and e = Submit and storage = Map.empty
       and mounted = ?fresh and es = "[Type_query (ascii ''hi''), Submit, Click_clear]"]
  have p: "persisted (app \<lparr>app = ?saved, outstanding = []\<rparr>)"
    by (simp add: persisted_def JSON_stringify_def bracket_def ascii_def)
  have m: "mount Map.empty = Inr ?fresh"
    by (simp add: mount_def load_effect_def save_effect_def localStorage_setItem_def
        ToString_def JSON_stringify_def bracket_def ascii_def)
  from both p have step: "persisted (app (chatbot_step Submit \<lparr>app = ?saved, outstanding = []\<rparr>))"
    by blast
  from both m have run: "persisted (app (chatbot_run [Type_query (ascii ''hi''), Submit, Click_clear]
      \<lparr>app = ?fresh, outstanding = []\<rparr>))"
    by blast
  have "localStorage (app (chatbot_step Submit \<lparr>app = ?saved, outstanding = []\<rparr>))
      (ascii ''chatHistory'')
     = Some (ascii ''[{\"sender\":\"user\",\"text\":\"hi\"}]'')"
    by (simp add: handleSubmit_def setChatHistory_def setQuery_def commit_def save_effect_def
        localStorage_setItem_def ToString_def trim_def is_js_whitespace_def JSON_stringify_def
        bracket_def QuoteJSONString_def quote_unit_def is_leading_surrogate_def
        is_trailing_surrogate_def ascii_def)
  with step run show ?thesis by blast
qed

text \<open>
  C6, as the code has it: for a response body on which the property reads succeed (every
  body but \<open>null\<close>), the bot message carries \<open>reply\<close> when that is truthy, else
  \<open>insight\<close> when that is truthy, else the serialisation of the whole body with an
  indentation of two spaces, which is a string. A \<open>reply\<close> or \<open>insight\<close> that is there
  but falsy, such as the empty string, is passed over as a missing one is. A successful
  response fulfils the awaited call with its body. On the body \<open>null\<close> the read of
  \<open>res.data.reply\<close> throws inside the \<open>try\<close> block, and the bot message is the fixed
  one of the \<open>catch\<close> block.
\<close>

theorem bot_text_is_reply_or_insight_or_body:
  "(get_prop data (ascii ''reply'') = Inr reply \<and> get_prop data (ascii ''insight'') = Inr insight \<longrightarrow>
      chatHistory (handleSubmit_resume (Fulfilled data) s) =
        chatHistory s @
          [JObj [(ascii ''sender'', JStr (ascii ''bot'')),
                 (ascii ''text'',
                  if truthy reply then reply
                  else if truthy insight then insight
                  else string_or_undefined (JSON_stringify_2 data))]] \<and>
      (\<exists>str. string_or_undefined (JSON_stringify_2 data) = JStr str)) \<and>
   (ok_status status \<longrightarrow>
      axios_post (Http status (Json data)) = Fulfilled data \<and>
      axios_post (Http status (Not_json other)) = Fulfilled (JStr other)) \<and>
   chatHistory (handleSubmit_resume (Fulfilled JNull) s) =
     chatHistory s @ [JObj [(ascii ''sender'', JStr (ascii ''bot'')),
                            (ascii ''text'', JStr (ascii ''Something went wrong.''))]]"
proof -
  have A: "chatHistory (handleSubmit_resume (Fulfilled data) s) =
        chatHistory s @
          [JObj [(ascii ''sender'', JStr (ascii ''bot'')),
                 (ascii ''text'',
                  if truthy reply then reply
                  else if truthy insight then insight
                  else string_or_undefined (JSON_stringify_2 data))]] \<and>
      (\<exists>str. string_or_undefined (JSON_stringify_2 data) = JStr str)"
    if "get_prop data (ascii ''reply'') = Inr reply" "get_prop data (ascii ''insight'') = Inr insight"
    using that
    by (cases data)
       (simp_all add: handleSubmit_resume_def rawReply_def setChatHistory_def
          string_or_undefined_def JSON_stringify_2_def)
  have B: "chatHistory (handleSubmit_resume (Fulfilled JNull) s) =
     chatHistory s @ [JObj [(ascii ''sender'', JStr (ascii ''bot'')),
                            (ascii ''text'', JStr (ascii ''Something went wrong.''))]]"
    by (simp add: handleSubmit_resume_def rawReply_def setChatHistory_def)
  from A B show ?thesis by simp
qed

theorem bot_text_is_reply_or_insight_or_body_witness:
  "ok_status 200 \<and>
   chatHistory (handleSubmit_resume
      (axios_post (Http 200 (Json (JObj [(ascii ''reply'', JStr []), (ascii ''insight'', JStr (ascii ''up 3%''))]))))
      \<lparr>query = [], chatHistory = [], localStorage = Map.empty, chatHistory_changed = False\<rparr>)
     = [JObj [(ascii ''sender'', JStr (ascii ''bot'')), (ascii ''text'', JStr (ascii ''up 3%''))]] \<and>
   chatHistory (handleSubmit_resume
      (axios_post (Http 200 (Json (JObj [(ascii ''status'', JStr (ascii ''ok''))]))))
      \<lparr>query = [], chatHistory = [], localStorage = Map.empty, chatHistory_changed = False\<rparr>)
     = [JObj [(ascii ''sender'', JStr (ascii ''bot'')),
              (ascii ''text'', JStr (ascii ''{\<newline>  \"status\": \"ok\"\<newline>}''))]]"
proof -
  let ?fresh = "\<lparr>query = [], chatHistory = [], localStorage = Map.empty, chatHistory_changed = False\<rparr>"
  have ok: "ok_status 200" by (simp add: ok_status_def)
  have a: "get_prop (JObj [(ascii ''reply'', JStr []), (ascii ''insight'', JStr (ascii ''up 3%''))])
             (ascii ''reply'') = Inr (JStr [])"
    by (simp add: ascii_def)
  have b: "get_prop (JObj [(ascii ''reply'', JStr []), (ascii ''insight'', JStr (ascii ''up 3%''))])
             (ascii ''insight'') = Inr (JStr (ascii ''up 3%''))"
    by (simp add: ascii_def)
  have c: "get_prop (JObj [(ascii ''status'', JStr (ascii ''ok''))]) (ascii ''reply'') = Inr JUndefined"
    by (simp add: ascii_def)
  have d: "get_prop (JObj [(ascii ''status'', JStr (ascii ''ok''))]) (ascii ''insight'') = Inr JUndefined"
    by (simp add: ascii_def)
  have e: "string_or_undefined (JSON_stringify_2 (JObj [(ascii ''status'', JStr (ascii ''ok''))]))
      = JStr (ascii ''{\<newline>  \"status\": \"ok\"\<newline>}'')"
    by (simp add: string_or_undefined_def JSON_stringify_2_def bracket_def QuoteJSONString_def
        quote_unit_def is_leading_surrogate_def is_trailing_surrogate_def ascii_def)
  note one = bot_text_is_reply_or_insight_or_body
    [where data = "JObj [(ascii ''reply'', JStr []), (ascii ''insight'', JStr (ascii ''up 3%''))]"
       and reply = "JStr []" and insight = "JStr (ascii ''up 3%'')" and s = ?fresh and status = 200]
  note two = bot_text_is_reply_or_insight_or_body
    [where data = "JObj [(ascii ''status'', JStr (ascii ''ok''))]"
       and reply = JUndefined and insight = JUndefined and s = ?fresh and status = 200]
  from one a b ok have first: "chatHistory (handleSubmit_resume
      (axios_post (Http 200 (Json (JObj [(ascii ''reply'', JStr []), (ascii ''insight'', JStr (ascii ''up 3%''))]))))
      ?fresh)
     = [JObj [(ascii ''sender'', JStr (ascii ''bot'')), (ascii ''text'', JStr (ascii ''up 3%''))]]"
    by (simp add: ascii_def)
  from two c d e ok have second: "chatHistory (handleSubmit_resume
      (axios_post (Http 200 (Json (JObj [(ascii ''status'', JStr (ascii ''ok''))])))) ?fresh)
     = [JObj [(ascii ''sender'', JStr (ascii ''bot'')),
              (ascii ''text'', JStr (ascii ''{\<newline>  \"status\": \"ok\"\<newline>}''))]]"
    by (simp add: ascii_def)
  from ok first second show ?thesis by (intro conjI)
qed

text \<open>
  C6 as stated fails for a successful response whose body is \<open>null\<close>: it has neither
  \<open>reply\<close> nor \<open>insight\<close>, and the bot message is the fixed failure message, not the
  serialisation \<open>null\<close> of the body.
\<close>

theorem null_body_gets_fallback_counterexample:
  "ok_status 200 \<and>
   chatHistory (app (chatbot_run
      [Type_query (ascii ''hi''), Submit, Settle 0 (axios_post (Http 200 (Json JNull)))]
      \<lparr>app = \<lparr>query = [], chatHistory = [],
               localStorage = [ascii ''chatHistory'' \<mapsto> ascii ''[]''],
               chatHistory_changed = False\<rparr>,
       outstanding = []\<rparr>))
   = [JObj [(ascii ''sender'', JStr (ascii ''user'')), (ascii ''text'', JStr (ascii ''hi''))],
      JObj [(ascii ''sender'', JStr (ascii ''bot'')),
            (ascii ''text'', JStr (ascii ''Something went wrong.''))]] \<and>
   string_or_undefined (JSON_stringify_2 JNull) = JStr (ascii ''null'')"
  by (simp add: ok_status_def handleSubmit_def handleSubmit_resume_def rawReply_def setQuery_def
      setChatHistory_def trim_def is_js_whitespace_def string_or_undefined_def
      JSON_stringify_2_def ascii_def)

lemma chatbot_step_tagged:
  "list_all (tagged_message (ascii ''sender'')) (chatHistory (app p)) \<Longrightarrow>
   list_all (tagged_message (ascii ''sender'')) (chatHistory (app (chatbot_step e p)))"
proof (cases e)
  case (Type_query q)
  assume "list_all (tagged_message (ascii ''sender'')) (chatHistory (app p))"
  with Type_query show ?thesis by (simp add: setQuery_def)
next
  case Submit
  assume "list_all (tagged_message (ascii ''sender'')) (chatHistory (app p))"
  with Submit show ?thesis
    by (cases "trim (query (app p)) = []")
       (simp_all add: handleSubmit_blank handleSubmit_nonblank ascii_def)
next
  case Click_clear
  then show ?thesis by (simp add: handleClear_def setChatHistory_def localStorage_removeItem_def)
next
  case (Settle i r)
  assume h: "list_all (tagged_message (ascii ''sender'')) (chatHistory (app p))"
  obtain t where t: "handleSubmit_resume r (app p) =
      (app p)\<lparr>chatHistory := chatHistory (app p) @ [JObj [(ascii ''sender'', JStr (ascii ''bot'')),
                                               (ascii ''text'', t)]],
           chatHistory_changed := True\<rparr>"
    using handleSubmit_resume_appends by blast
  with Settle h show ?thesis by (simp add: ascii_def)
qed

lemma insights_step_tagged:
  assumes "list_all (tagged_message (ascii ''role'')) (chat s)"
    and "insights_step e (Page s a) = Page s' a'"
  shows "list_all (tagged_message (ascii ''role'')) (chat s')"
proof -
  from insights_step_transcript [OF assms(2)]
  consider added where "chat s' = chat s @ added"
    | insight where "chat s' = [JObj [(ascii ''role'', JStr (ascii ''bot'')), (ascii ''text'', insight)]]"
    by blast
  then show ?thesis
  proof cases
    case 2
    then show ?thesis by (simp add: ascii_def)
  next
    case 1
    show ?thesis
    proof (cases e)
      case (Settled i r)
      from insights_settled [of i r s a s' a'] assms(2) Settled
      consider "chat s' = chat s"
        | asked reply where "chat s' = chat s @
            [JObj [(ascii ''role'', JStr (ascii ''user'')), (ascii ''text'', JStr asked)],
             JObj [(ascii ''role'', JStr (ascii ''bot'')), (ascii ''text'', reply)]]"
        | insight where "chat s' = [JObj [(ascii ''role'', JStr (ascii ''bot'')), (ascii ''text'', insight)]]"
        by blast
      then show ?thesis
        using assms(1) by cases (simp_all add: ascii_def)
    next
      case (Type_company c)
      with assms show ?thesis by auto
    next
      case (Type_followUp q)
      with assms show ?thesis by (auto split: if_splits)
    next
      case Click_get_insights
      with assms show ?thesis by (auto simp add: handleStartChat_def split: if_splits)
    next
      case Click_send_followUp
      with assms show ?thesis by (auto simp add: handleFollowUp_def split: if_splits)
    qed
  qed
qed

lemma handleSubmit_resume_message:
  "chatHistory (handleSubmit_resume r s) =
     chatHistory s @
       [JObj [(ascii ''sender'', JStr (ascii ''bot'')),
              (ascii ''text'',
               case r of
                 Rejected e \<Rightarrow> JStr (ascii ''Something went wrong.'')
               | Fulfilled data \<Rightarrow>
                   (case rawReply data of
                      Inl e \<Rightarrow> JStr (ascii ''Something went wrong.'')
                    | Inr shown \<Rightarrow> shown))]]"
  by (cases r; cases "rawReply (case r of Fulfilled d \<Rightarrow> d)")
     (simp_all add: handleSubmit_resume_def setChatHistory_def)

text \<open>
  C7, as the code has it. A step of either page keeps every message an object tagged
  \<open>user\<close> or \<open>bot\<close> and carrying a property \<open>text\<close>; the tag is the property \<open>sender\<close>
  in the query page and the property \<open>role\<close> in the other page. The messages that the
  handlers place are these: the user's message with the submitted string as text; the
  bot's message of the query page, whose text is the value chosen from the response
  (\<open>rawReply\<close>) or the fixed string; the bot's message of a started chat, whose text is
  the \<open>insight\<close> of the body as it is; the two messages of a follow-up, the bot's text
  being the \<open>reply\<close> of the body as it is. The load effect places the array that the key
  holds, whatever its elements are.
\<close>

theorem messages_are_tagged_user_or_bot:
  "(list_all (tagged_message (ascii ''sender'')) (chatHistory (app p)) \<longrightarrow>
      list_all (tagged_message (ascii ''sender'')) (chatHistory (app (chatbot_step e p)))) \<and>
   (list_all (tagged_message (ascii ''role'')) (chat c) \<and> insights_step f (Page c a) = Page c' a' \<longrightarrow>
      list_all (tagged_message (ascii ''role'')) (chat c')) \<and>
   ((\<exists>u\<in>set (query s). \<not> is_js_whitespace u) \<longrightarrow>
      chatHistory (fst (handleSubmit s)) =
        chatHistory s @ [JObj [(ascii ''sender'', JStr (ascii ''user'')),
                               (ascii ''text'', JStr (query s))]]) \<and>
   chatHistory (handleSubmit_resume r s) =
     chatHistory s @
       [JObj [(ascii ''sender'', JStr (ascii ''bot'')),
              (ascii ''text'',
               case r of
                 Rejected err \<Rightarrow> JStr (ascii ''Something went wrong.'')
               | Fulfilled data \<Rightarrow>
                   (case rawReply data of
                      Inl err \<Rightarrow> JStr (ascii ''Something went wrong.'')
                    | Inr shown \<Rightarrow> shown))]] \<and>
   (get_prop body (ascii ''insight'') = Inr insight \<longrightarrow>
      handleStartChat_resume (Fulfilled body) b =
        Rendered (b\<lparr>chat := [JObj [(ascii ''role'', JStr (ascii ''bot'')),
                                      (ascii ''text'', insight)]],
                     loading := False\<rparr>)) \<and>
   (get_prop answer (ascii ''reply'') = Inr reply \<longrightarrow>
      handleFollowUp_resume asked (Fulfilled answer) b =
        Rendered (b\<lparr>chat := chat b @ [JObj [(ascii ''role'', JStr (ascii ''user'')),
                                               (ascii ''text'', JStr asked)],
                                         JObj [(ascii ''role'', JStr (ascii ''bot'')),
                                               (ascii ''text'', reply)]],
                     followUp := [], loading := False\<rparr>)) \<and>
   (mount storage = Inr mounted \<longrightarrow>
      chatHistory mounted = [] \<or>
      (\<exists>stored. storage (ascii ''chatHistory'') = Some stored \<and>
         JSON_parse stored = Inr (JArr (chatHistory mounted))))"
proof -
  have user: "chatHistory (fst (handleSubmit s)) =
        chatHistory s @ [JObj [(ascii ''sender'', JStr (ascii ''user'')),
                               (ascii ''text'', JStr (query s))]]"
    if "\<exists>u\<in>set (query s). \<not> is_js_whitespace u"
  proof -
    from that have "trim (query s) \<noteq> []"
      using trim_empty_only_if_blank by blast
    then show ?thesis by (simp add: handleSubmit_nonblank)
  qed
  have start: "handleStartChat_resume (Fulfilled body) b =
        Rendered (b\<lparr>chat := [JObj [(ascii ''role'', JStr (ascii ''bot'')),
                                      (ascii ''text'', insight)]],
                     loading := False\<rparr>)"
    if "get_prop body (ascii ''insight'') = Inr insight"
    using that by (simp add: handleStartChat_resume_def)
  have follow: "handleFollowUp_resume asked (Fulfilled answer) b =
        Rendered (b\<lparr>chat := chat b @ [JObj [(ascii ''role'', JStr (ascii ''user'')),
                                               (ascii ''text'', JStr asked)],
                                         JObj [(ascii ''role'', JStr (ascii ''bot'')),
                                               (ascii ''text'', reply)]],
                     followUp := [], loading := False\<rparr>)"
    if "get_prop answer (ascii ''reply'') = Inr reply"
    using that by (simp add: handleFollowUp_resume_def)
  show ?thesis
    using chatbot_step_tagged [of p e] insights_step_tagged [of c f a c' a'] user
      handleSubmit_resume_message [of r s] start follow mount_loads [of storage mounted]
    by (intro conjI impI) blast+
qed

theorem messages_are_tagged_user_or_bot_witness:
  "list_all (tagged_message (ascii ''sender''))
     (chatHistory (app (chatbot_step Submit
        \<lparr>app = \<lparr>query = ascii ''hi'', chatHistory = [], localStorage = Map.empty,
                 chatHistory_changed = False\<rparr>, outstanding = []\<rparr>))) \<and>
   list_all (tagged_message (ascii ''role''))
     [JObj [(ascii ''role'', JStr (ascii ''bot'')), (ascii ''text'', JNum (Finite 7))]] \<and>
   chatHistory (fst (handleSubmit
        \<lparr>query = ascii ''hi'', chatHistory = [], localStorage = Map.empty, chatHistory_changed = False\<rparr>))
     = [JObj [(ascii ''sender'', JStr (ascii ''user'')), (ascii ''text'', JStr (ascii ''hi''))]] \<and>
   handleStartChat_resume (Fulfilled (JObj [(ascii ''insight'', JNum (Finite 7))]))
        \<lparr>company = ascii ''acme'', chat = [], loading = True, followUp = []\<rparr>
     = Rendered \<lparr>company = ascii ''acme'',
                 chat = [JObj [(ascii ''role'', JStr (ascii ''bot'')), (ascii ''text'', JNum (Finite 7))]],
                 loading = False, followUp = []\<rparr> \<and>
   handleFollowUp_resume (ascii ''why'') (Fulfilled (JObj [(ascii ''reply'', JBool True)]))
        \<lparr>company = ascii ''acme'', chat = [], loading = True, followUp = ascii ''why''\<rparr>
     = Rendered \<lparr>company = ascii ''acme'',
                 chat = [JObj [(ascii ''role'', JStr (ascii ''user'')), (ascii ''text'', JStr (ascii ''why''))],
                         JObj [(ascii ''role'', JStr (ascii ''bot'')), (ascii ''text'', JBool True)]],
                 loading = False, followUp = []\<rparr> \<and>
   mount [ascii ''chatHistory'' \<mapsto> ascii ''[\"x\"]'']
     = Inr \<lparr>query = [], chatHistory = [JStr (ascii ''x'')],
            localStorage = [ascii ''chatHistory'' \<mapsto> ascii ''[\"x\"]''],
            chatHistory_changed = False\<rparr> \<and>
   JSON_parse (ascii ''[\"x\"]'') = Inr (JArr [JStr (ascii ''x'')])"
proof -
  let ?typed = "\<lparr>query = ascii ''hi'', chatHistory = [], localStorage = Map.empty,
                 chatHistory_changed = False\<rparr>"
  let ?starting = "\<lparr>company = ascii ''acme'', chat = [], loading = True, followUp = []\<rparr>"
  let ?started = "\<lparr>company = ascii ''acme'',
                 chat = [JObj [(ascii ''role'', JStr (ascii ''bot'')), (ascii ''text'', JNum (Finite 7))]],
                 loading = False, followUp = []\<rparr>"
  let ?asking = "\<lparr>company = ascii ''acme'', chat = [], loading = True, followUp = ascii ''why''\<rparr>"
  let ?stored = "[ascii ''chatHistory'' \<mapsto> ascii ''[\"x\"]'']"
  let ?loaded = "\<lparr>query = [], chatHistory = [JStr (ascii ''x'')], localStorage = ?stored,
            chatHistory_changed = False\<rparr>"
  have key: "?stored (ascii ''chatHistory'') = JSON_stringify (JArr [JStr (ascii ''x'')])"
    by (simp add: JSON_stringify_def bracket_def QuoteJSONString_def quote_unit_def
        is_leading_surrogate_def is_trailing_surrogate_def ascii_def)
  have j: "json_values [JStr (ascii ''x'')]" by simp
  have rn: "renders (JArr [JStr (ascii ''x'')])" by simp
  have m: "mount ?stored = Inr ?loaded"
    using j rn key by (rule mount_after_save)
  have nb: "\<exists>u\<in>set (query ?typed). \<not> is_js_whitespace u"
    by (simp add: ascii_def is_js_whitespace_def)
  have step: "insights_step (Settled 0 (Fulfilled (JObj [(ascii ''insight'', JNum (Finite 7))])))
      (Page ?starting [Await_start_chat]) = Page ?started []"
    by (simp add: handleStartChat_resume_def drop_nth_def)
  note all = messages_are_tagged_user_or_bot
    [where p = "\<lparr>app = ?typed, outstanding = []\<rparr>" and e = Submit
       and c = ?starting and f = "Settled 0 (Fulfilled (JObj [(ascii ''insight'', JNum (Finite 7))]))"
       and a = "[Await_start_chat]" and c' = ?started and a' = "[]"
       and s = ?typed
       and body = "JObj [(ascii ''insight'', JNum (Finite 7))]" and insight = "JNum (Finite 7)"
       and b = ?starting
       and storage = ?stored and mounted = ?loaded]
  note follow = messages_are_tagged_user_or_bot
    [where answer = "JObj [(ascii ''reply'', JBool True)]" and reply = "JBool True"
       and asked = "ascii ''why''" and b = ?asking]
  from all have one: "list_all (tagged_message (ascii ''sender''))
     (chatHistory (app (chatbot_step Submit \<lparr>app = ?typed, outstanding = []\<rparr>)))"
    by simp
  from all step have two: "list_all (tagged_message (ascii ''role''))
     [JObj [(ascii ''role'', JStr (ascii ''bot'')), (ascii ''text'', JNum (Finite 7))]]"
    by simp
  from all nb have three: "chatHistory (fst (handleSubmit ?typed))
     = [JObj [(ascii ''sender'', JStr (ascii ''user'')), (ascii ''text'', JStr (ascii ''hi''))]]"
    by simp
  from all have four: "handleStartChat_resume (Fulfilled (JObj [(ascii ''insight'', JNum (Finite 7))]))
      ?starting = Rendered ?started"
    by simp
  from follow have five: "handleFollowUp_resume (ascii ''why'') (Fulfilled (JObj [(ascii ''reply'', JBool True)]))
      ?asking
     = Rendered \<lparr>company = ascii ''acme'',
                 chat = [JObj [(ascii ''role'', JStr (ascii ''user'')), (ascii ''text'', JStr (ascii ''why''))],
                         JObj [(ascii ''role'', JStr (ascii ''bot'')), (ascii ''text'', JBool True)]],
                 loading = False, followUp = []\<rparr>"
    by simp
  from all m have six: "JSON_parse (ascii ''[\"x\"]'') = Inr (JArr [JStr (ascii ''x'')])"
    by simp
  from one two three four five m six show ?thesis
    by (intro conjI)
qed

text \<open>
  C7 as stated fails in the second page: after a chat was started and a follow-up sent,
  none of the three messages has a property \<open>sender\<close>, and the text of the bot's answer
  is \<open>undefined\<close>, the response having no \<open>reply\<close>.
\<close>

theorem follow_up_messages_have_no_sender_counterexample:
  "insights_run
     [Type_company (ascii ''acme''), Click_get_insights,
      Settled 0 (fetch_json (Http 200 (Json (JObj [(ascii ''insight'', JStr (ascii ''old''))])))),
      Type_followUp (ascii ''why''), Click_send_followUp,
      Settled 0 (fetch_json (Http 200 (Json (JObj []))))]
     insights_initial
   = Page \<lparr>company = ascii ''acme'',
            chat = [JObj [(ascii ''role'', JStr (ascii ''bot'')), (ascii ''text'', JStr (ascii ''old''))],
                    JObj [(ascii ''role'', JStr (ascii ''user'')), (ascii ''text'', JStr (ascii ''why''))],
                    JObj [(ascii ''role'', JStr (ascii ''bot'')), (ascii ''text'', JUndefined)]],
            loading = False, followUp = []\<rparr> [] \<and>
   get_prop (JObj [(ascii ''role'', JStr (ascii ''bot'')), (ascii ''text'', JStr (ascii ''old''))])
     (ascii ''sender'') = Inr JUndefined \<and>
   get_prop (JObj [(ascii ''role'', JStr (ascii ''user'')), (ascii ''text'', JStr (ascii ''why''))])
     (ascii ''sender'') = Inr JUndefined \<and>
   get_prop (JObj [(ascii ''role'', JStr (ascii ''bot'')), (ascii ''text'', JUndefined)])
     (ascii ''sender'') = Inr JUndefined"
  by (simp add: insights_initial_def handleStartChat_def handleStartChat_resume_def
      handleFollowUp_def handleFollowUp_resume_def drop_nth_def trim_def is_js_whitespace_def
      ascii_def)

lemma one_call_step: "one_call_at_most p \<Longrightarrow> one_call_at_most (insights_step e p)"
proof (cases p)
  case Removed
  then show ?thesis by (simp add: one_call_at_most_def)
next
  case (Page s a)
  assume inv: "one_call_at_most p"
  show ?thesis
  proof (cases e)
    case (Settled i r)
    with inv Page show ?thesis
      by (auto simp add: one_call_at_most_def drop_nth_def split: resumption.splits)
  qed (use inv Page in \<open>auto simp add: one_call_at_most_def handleStartChat_def handleFollowUp_def\<close>)
qed

lemma one_call_run: "one_call_at_most p \<Longrightarrow> one_call_at_most (insights_run es p)"
  by (induction es arbitrary: p) (simp_all add: one_call_step)

lemma one_call_initial: "one_call_at_most insights_initial"
  by (simp add: one_call_at_most_def insights_initial_def)

lemma one_call_blocks_clicks:
  "one_call_at_most p \<Longrightarrow> awaiting p \<noteq> [] \<Longrightarrow>
     insights_step Click_get_insights p = p \<and> insights_step Click_send_followUp p = p"
  by (cases p) (simp_all add: one_call_at_most_def)

lemma chatbot_step_one_request:
  "length (outstanding (chatbot_step e p)) \<le> Suc (length (outstanding p))"
  by (cases e) (auto simp add: drop_nth_def split: prod.splits option.splits)

text \<open>
  C8, as the code has it: one event issues at most one request. In the page whose
  buttons carry \<open>disabled={loading}\<close>, no run from the first render has more than one
  call awaited, and while one is awaited a click on either button does nothing. The query
  page has no such gate.
\<close>

theorem one_call_per_event_and_gate_in_second_page:
  "length (outstanding (chatbot_step e p)) \<le> Suc (length (outstanding p)) \<and>
   length (awaiting (insights_run es insights_initial)) \<le> 1 \<and>
   (awaiting (insights_run es insights_initial) \<noteq> [] \<longrightarrow>
      insights_step Click_get_insights (insights_run es insights_initial)
        = insights_run es insights_initial \<and>
      insights_step Click_send_followUp (insights_run es insights_initial)
        = insights_run es insights_initial)"
proof -
  have inv: "one_call_at_most (insights_run es insights_initial)"
    by (rule one_call_run) (rule one_call_initial)
  then have "length (awaiting (insights_run es insights_initial)) \<le> 1"
    by (auto simp add: one_call_at_most_def)
  with inv show ?thesis
    using chatbot_step_one_request [of e p] one_call_blocks_clicks by blast
qed

theorem one_call_per_event_and_gate_in_second_page_witness:
  "awaiting (insights_run [Type_company (ascii ''acme''), Click_get_insights] insights_initial)
     = [Await_start_chat] \<and>
   insights_step Click_get_insights
       (insights_run [Type_company (ascii ''acme''), Click_get_insights] insights_initial)
     = insights_run [Type_company (ascii ''acme''), Click_get_insights] insights_initial"
proof -
  have a: "awaiting (insights_run [Type_company (ascii ''acme''), Click_get_insights] insights_initial)
     = [Await_start_chat]"
    by (simp add: insights_initial_def handleStartChat_def trim_def ascii_def is_js_whitespace_def)
  then show ?thesis
    using one_call_per_event_and_gate_in_second_page
      [of _ _ "[Type_company (ascii ''acme''), Click_get_insights]"]
    by simp
qed

text \<open>
  C8 as stated fails in the query page: from the page mounted over an empty
  \<open>localStorage\<close>, two submissions in a row, with nothing settled in between, leave two
  calls awaited.
\<close>

theorem two_submissions_two_calls_counterexample:
  "mount Map.empty =
     Inr \<lparr>query = [], chatHistory = [],
          localStorage = [ascii ''chatHistory'' \<mapsto> ascii ''[]''],
          chatHistory_changed = False\<rparr> \<and>
   outstanding (chatbot_run [Type_query (ascii ''a''), Submit, Type_query (ascii ''b''), Submit]
      \<lparr>app = \<lparr>query = [], chatHistory = [],
               localStorage = [ascii ''chatHistory'' \<mapsto> ascii ''[]''],
               chatHistory_changed = False\<rparr>,
       outstanding = []\<rparr>)
   = [POST (ascii ''http://localhost:8000/query'') (JObj [(ascii ''query'', JStr (ascii ''a''))]),
      POST (ascii ''http://localhost:8000/query'') (JObj [(ascii ''query'', JStr (ascii ''b''))])]"
  by (simp add: mount_def load_effect_def ToString_def JSON_stringify_def bracket_def
      handleSubmit_def setQuery_def setChatHistory_def commit_def save_effect_def
      localStorage_setItem_def trim_def ascii_def is_js_whitespace_def)

text \<open>
  C9: when the input holds only whitespace code units (or nothing), \<open>handleSubmit\<close>,
  \<open>handleStartChat\<close> and \<open>handleFollowUp\<close> return at their first line: no request is
  issued and the whole state (transcript, loading flag, \<open>localStorage\<close>) is what it was;
  no effect runs after them, so the pages stay as they were.
\<close>

theorem blank_input_is_ignored:
  "((\<forall>c\<in>set (query a). is_js_whitespace c) \<longrightarrow> handleSubmit a = (a, None)) \<and>
   ((\<forall>c\<in>set (company b). is_js_whitespace c) \<longrightarrow> handleStartChat b = (b, None)) \<and>
   ((\<forall>c\<in>set (followUp b). is_js_whitespace c) \<longrightarrow> handleFollowUp b = (b, None)) \<and>
   ((\<forall>c\<in>set (query (app p)). is_js_whitespace c) \<and> \<not> chatHistory_changed (app p) \<longrightarrow>
      chatbot_step Submit p = p) \<and>
   ((\<forall>c\<in>set (company (view v)). is_js_whitespace c) \<longrightarrow> insights_step Click_get_insights v = v) \<and>
   ((\<forall>c\<in>set (followUp (view v)). is_js_whitespace c) \<longrightarrow> insights_step Click_send_followUp v = v)"
  by (cases v) (simp_all add: handleSubmit_def handleStartChat_def handleFollowUp_def trim_blank commit_def)

theorem blank_input_is_ignored_witness:
  "list_all is_js_whitespace [0x20, 0x09, 0xA0] \<and>
   handleSubmit \<lparr>query = [0x20, 0x09, 0xA0], chatHistory = [], localStorage = Map.empty,
                 chatHistory_changed = False\<rparr>
     = (\<lparr>query = [0x20, 0x09, 0xA0], chatHistory = [], localStorage = Map.empty,
         chatHistory_changed = False\<rparr>, None) \<and>
   handleStartChat \<lparr>company = [], chat = [], loading = False, followUp = [0x0A]\<rparr>
     = (\<lparr>company = [], chat = [], loading = False, followUp = [0x0A]\<rparr>, None) \<and>
   handleFollowUp \<lparr>company = [], chat = [], loading = False, followUp = [0x0A]\<rparr>
     = (\<lparr>company = [], chat = [], loading = False, followUp = [0x0A]\<rparr>, None)"
  using blank_input_is_ignored
    [where a = "\<lparr>query = [0x20, 0x09, 0xA0], chatHistory = [], localStorage = Map.empty,
                  chatHistory_changed = False\<rparr>"
       and b = "\<lparr>company = [], chat = [], loading = False, followUp = [0x0A]\<rparr>"]
  by (simp add: is_js_whitespace_def)

lemma nonblank_trim: "\<exists>c\<in>set q. \<not> is_js_whitespace c \<Longrightarrow> trim q \<noteq> []"
  using trim_empty_only_if_blank by blast

text \<open>
  C10, as the code has it. Query page: a submission of an input that is not all
  whitespace appends the user's message, with the input as its text, before the request
  is awaited, and whatever happens to the request one bot message after it, the fixed
  one when the request has failed. Other page: a follow-up appends nothing before its
  call completes. A response with a JSON body on which \<open>reply\<close> can be read appends the
  user's message and the bot's message together, whatever the status of the response.
  When no response arrives or the body is not JSON the handler rejects and nothing is
  appended. On the body \<open>null\<close> the render throws and the page is removed.
\<close>

theorem user_then_bot_message:
  "((\<exists>c\<in>set (query s). \<not> is_js_whitespace c) \<longrightarrow>
      (\<exists>s1 rq shown.
         handleSubmit s = (s1, Some rq) \<and>
         chatHistory s1 =
           chatHistory s @ [JObj [(ascii ''sender'', JStr (ascii ''user'')),
                                  (ascii ''text'', JStr (query s))]] \<and>
         chatHistory (handleSubmit_resume (axios_post x) s1) =
           chatHistory s @ [JObj [(ascii ''sender'', JStr (ascii ''user'')),
                                  (ascii ''text'', JStr (query s))],
                            JObj [(ascii ''sender'', JStr (ascii ''bot'')), (ascii ''text'', shown)]] \<and>
         (request_failed x \<longrightarrow> shown = JStr (ascii ''Something went wrong.'')))) \<and>
   ((\<exists>c\<in>set (followUp b). \<not> is_js_whitespace c) \<longrightarrow>
      (\<exists>rq. handleFollowUp b = (b\<lparr>loading := True\<rparr>, Some rq))) \<and>
   (get_prop data (ascii ''reply'') = Inr reply \<longrightarrow>
      handleFollowUp_resume asked (fetch_json (Http status (Json data))) waiting =
        Rendered (waiting\<lparr>chat := chat waiting @
                                   [JObj [(ascii ''role'', JStr (ascii ''user'')),
                                          (ascii ''text'', JStr asked)],
                                    JObj [(ascii ''role'', JStr (ascii ''bot'')),
                                          (ascii ''text'', reply)]],
                           followUp := [], loading := False\<rparr>)) \<and>
   handleFollowUp_resume asked (fetch_json No_response) waiting = Handler_rejected TypeError \<and>
   handleFollowUp_resume asked (fetch_json (Http status (Not_json other))) waiting
     = Handler_rejected SyntaxError \<and>
   handleFollowUp_resume asked (fetch_json (Http status (Json JNull))) waiting
     = Page_removed TypeError"
proof -
  have A: "\<exists>s1 rq shown.
         handleSubmit s = (s1, Some rq) \<and>
         chatHistory s1 =
           chatHistory s @ [JObj [(ascii ''sender'', JStr (ascii ''user'')),
                                  (ascii ''text'', JStr (query s))]] \<and>
         chatHistory (handleSubmit_resume (axios_post x) s1) =
           chatHistory s @ [JObj [(ascii ''sender'', JStr (ascii ''user'')),
                                  (ascii ''text'', JStr (query s))],
                            JObj [(ascii ''sender'', JStr (ascii ''bot'')), (ascii ''text'', shown)]] \<and>
         (request_failed x \<longrightarrow> shown = JStr (ascii ''Something went wrong.''))"
    if "\<exists>c\<in>set (query s). \<not> is_js_whitespace c"
  proof -
    from that have nb: "trim (query s) \<noteq> []" by (rule nonblank_trim)
    let ?shown = "case axios_post x of
                 Rejected e \<Rightarrow> JStr (ascii ''Something went wrong.'')
               | Fulfilled data \<Rightarrow>
                   (case rawReply data of
                      Inl e \<Rightarrow> JStr (ascii ''Something went wrong.'')
                    | Inr shown \<Rightarrow> shown)"
    have failed: "request_failed x \<longrightarrow> ?shown = JStr (ascii ''Something went wrong.'')"
      by (cases x) simp_all
    show ?thesis
      using nb failed handleSubmit_resume_message [of "axios_post x" "fst (handleSubmit s)"]
      by (simp add: handleSubmit_nonblank)
  qed
  have B: "\<exists>rq. handleFollowUp b = (b\<lparr>loading := True\<rparr>, Some rq)"
    if "\<exists>c\<in>set (followUp b). \<not> is_js_whitespace c"
  proof -
    from that have "trim (followUp b) \<noteq> []" by (rule nonblank_trim)
    then show ?thesis by (simp add: handleFollowUp_def)
  qed
  have C: "handleFollowUp_resume asked (fetch_json (Http status (Json data))) waiting =
        Rendered (waiting\<lparr>chat := chat waiting @
                                   [JObj [(ascii ''role'', JStr (ascii ''user'')),
                                          (ascii ''text'', JStr asked)],
                                    JObj [(ascii ''role'', JStr (ascii ''bot'')),
                                          (ascii ''text'', reply)]],
                           followUp := [], loading := False\<rparr>)"
    if "get_prop data (ascii ''reply'') = Inr reply"
    using that by (simp add: handleFollowUp_resume_def)
  have D: "handleFollowUp_resume asked (fetch_json No_response) waiting = Handler_rejected TypeError"
    "handleFollowUp_resume asked (fetch_json (Http status (Not_json other))) waiting
       = Handler_rejected SyntaxError"
    "handleFollowUp_resume asked (fetch_json (Http status (Json JNull))) waiting
       = Page_removed TypeError"
    by (simp_all add: handleFollowUp_resume_def)
  from A B C D show ?thesis by blast
qed

theorem user_then_bot_message_witness:
  "request_failed (Http 500 (Json (JObj [(ascii ''detail'', JStr (ascii ''Internal Server Error''))]))) \<and>
   (\<exists>s1 rq.
      handleSubmit \<lparr>query = ascii '' hi'', chatHistory = [], localStorage = Map.empty,
                    chatHistory_changed = False\<rparr> = (s1, Some rq) \<and>
      chatHistory s1 = [JObj [(ascii ''sender'', JStr (ascii ''user'')),
                              (ascii ''text'', JStr (ascii '' hi''))]] \<and>
      chatHistory (handleSubmit_resume
          (axios_post (Http 500 (Json (JObj [(ascii ''detail'', JStr (ascii ''Internal Server Error''))])))) s1) =
        [JObj [(ascii ''sender'', JStr (ascii ''user'')), (ascii ''text'', JStr (ascii '' hi''))],
         JObj [(ascii ''sender'', JStr (ascii ''bot'')),
               (ascii ''text'', JStr (ascii ''Something went wrong.''))]]) \<and>
   (\<exists>rq. handleFollowUp
      \<lparr>company = [],
        chat = [JObj [(ascii ''role'', JStr (ascii ''bot'')), (ascii ''text'', JStr (ascii ''old''))]],
        loading = False, followUp = ascii ''why''\<rparr>
      = (\<lparr>company = [],
          chat = [JObj [(ascii ''role'', JStr (ascii ''bot'')), (ascii ''text'', JStr (ascii ''old''))]],
          loading = True, followUp = ascii ''why''\<rparr>, Some rq)) \<and>
   handleFollowUp_resume (ascii ''why'')
      (fetch_json (Http 500 (Json (JObj [(ascii ''detail'', JStr (ascii ''Internal Server Error''))]))))
      \<lparr>company = [],
        chat = [JObj [(ascii ''role'', JStr (ascii ''bot'')), (ascii ''text'', JStr (ascii ''old''))]],
        loading = True, followUp = ascii ''why''\<rparr>
   = Rendered \<lparr>company = [],
        chat = [JObj [(ascii ''role'', JStr (ascii ''bot'')), (ascii ''text'', JStr (ascii ''old''))],
                JObj [(ascii ''role'', JStr (ascii ''user'')), (ascii ''text'', JStr (ascii ''why''))],
                JObj [(ascii ''role'', JStr (ascii ''bot'')), (ascii ''text'', JUndefined)]],
        loading = False, followUp = []\<rparr>"
proof -
  let ?error = "JObj [(ascii ''detail'', JStr (ascii ''Internal Server Error''))]"
  let ?typed = "\<lparr>query = ascii '' hi'', chatHistory = [], localStorage = Map.empty,
                    chatHistory_changed = False\<rparr>"
  let ?old = "JObj [(ascii ''role'', JStr (ascii ''bot'')), (ascii ''text'', JStr (ascii ''old''))]"
  let ?ready = "\<lparr>company = [], chat = [?old], loading = False, followUp = ascii ''why''\<rparr>"
  let ?waiting = "\<lparr>company = [], chat = [?old], loading = True, followUp = ascii ''why''\<rparr>"
  have f: "request_failed (Http 500 (Json ?error))"
    by (simp add: ok_status_def)
  have a: "\<exists>c\<in>set (query ?typed). \<not> is_js_whitespace c"
    by (simp add: ascii_def is_js_whitespace_def)
  have b: "\<exists>c\<in>set (followUp ?ready). \<not> is_js_whitespace c"
    by (simp add: ascii_def is_js_whitespace_def)
  have r: "get_prop ?error (ascii ''reply'') = Inr JUndefined"
    by (simp add: ascii_def)
  note all = user_then_bot_message
    [where s = ?typed and x = "Http 500 (Json ?error)" and b = ?ready and data = ?error
       and reply = JUndefined and asked = "ascii ''why''" and status = 500 and waiting = ?waiting]
  from all a f have one: "\<exists>s1 rq.
      handleSubmit ?typed = (s1, Some rq) \<and>
      chatHistory s1 = [JObj [(ascii ''sender'', JStr (ascii ''user'')),
                              (ascii ''text'', JStr (ascii '' hi''))]] \<and>
      chatHistory (handleSubmit_resume (axios_post (Http 500 (Json ?error))) s1) =
        [JObj [(ascii ''sender'', JStr (ascii ''user'')), (ascii ''text'', JStr (ascii '' hi''))],
         JObj [(ascii ''sender'', JStr (ascii ''bot'')),
               (ascii ''text'', JStr (ascii ''Something went wrong.''))]]"
    by auto
  from all b have two: "\<exists>rq. handleFollowUp ?ready = (?waiting, Some rq)"
    by simp
  from all r have three: "handleFollowUp_resume (ascii ''why'') (fetch_json (Http 500 (Json ?error))) ?waiting
   = Rendered \<lparr>company = [],
        chat = [?old,
                JObj [(ascii ''role'', JStr (ascii ''user'')), (ascii ''text'', JStr (ascii ''why''))],
                JObj [(ascii ''role'', JStr (ascii ''bot'')), (ascii ''text'', JUndefined)]],
        loading = False, followUp = []\<rparr>"
    by simp
  from f one two three show ?thesis
    by (intro conjI)
qed

text \<open>
  C10 as stated fails in the second page: the user's message of a follow-up is not in
  the transcript while the call is awaited, nor after the request has failed for want of
  a response.
\<close>

theorem follow_up_user_message_lost_on_failure_counterexample:
  "insights_run
     [Type_company (ascii ''acme''), Click_get_insights,
      Settled 0 (fetch_json (Http 200 (Json (JObj [(ascii ''insight'', JStr (ascii ''old''))])))),
      Type_followUp (ascii ''why''), Click_send_followUp]
     insights_initial
   = Page \<lparr>company = ascii ''acme'',
            chat = [JObj [(ascii ''role'', JStr (ascii ''bot'')), (ascii ''text'', JStr (ascii ''old''))]],
            loading = True, followUp = ascii ''why''\<rparr>
          [Await_follow_up (ascii ''why'')] \<and>
   request_failed No_response \<and>
   insights_run
     [Type_company (ascii ''acme''), Click_get_insights,
      Settled 0 (fetch_json (Http 200 (Json (JObj [(ascii ''insight'', JStr (ascii ''old''))])))),
      Type_followUp (ascii ''why''), Click_send_followUp,
      Settled 0 (fetch_json No_response)]
     insights_initial
   = Page \<lparr>company = ascii ''acme'',
            chat = [JObj [(ascii ''role'', JStr (ascii ''bot'')), (ascii ''text'', JStr (ascii ''old''))]],
            loading = True, followUp = ascii ''why''\<rparr>
          []"
  by (simp add: insights_initial_def handleStartChat_def handleStartChat_resume_def
      handleFollowUp_def handleFollowUp_resume_def drop_nth_def trim_def is_js_whitespace_def
      ascii_def)

end
